theory Spec2Isabelle
  imports Main "HOL-Library.Multiset"
begin

section \<open>Errors\<close>

text \<open>
  Every exception the modelled code can meet is a value.  \<open>RedisConnectionError\<close> is the
  one exception class \<open>handle_message\<close> catches around the cooldown store: the client
  raises it when the connection is refused or lost.  \<open>RedisTimeoutError\<close> is the
  client's \<open>TimeoutError\<close>, raised when the store does not answer in time; it is not a
  subclass of the former.  \<open>RedisResponseError\<close> is the store refusing a command (SETEX
  with a non-positive expiry).  \<open>ApiError\<close> is any exception raised by the completion call, \<open>IndexError\<close>
  and \<open>AttributeError\<close> are what \<open>response.choices[0].message.content.strip()\<close> raises on
  an empty choice list and on a missing content.  \<open>CompletionError\<close> is the exception
  \<open>generate_response\<close> raises after its loop, wrapping the last error.  \<open>DbError\<close> is any
  exception of the persistence layer (the database cannot be reached).
\<close>

datatype error =
    RedisConnectionError
  | RedisTimeoutError
  | RedisResponseError
  | ApiError string
  | IndexError
  | AttributeError
  | CompletionError "error option"
  | DbError

section \<open>Python's \<open>str\<close> of an integer\<close>

definition digit_char :: "nat \<Rightarrow> char" where
  "digit_char d = char_of (48 + d)"

fun str_nat :: "nat \<Rightarrow> string" where
  "str_nat n = (if n < 10 then [digit_char n] else str_nat (n div 10) @ [digit_char (n mod 10)])"

declare str_nat.simps [simp del]

definition str_int :: "int \<Rightarrow> string" where
  "str_int i = (if i < 0 then CHR ''-'' # str_nat (nat (- i)) else str_nat (nat i))"

text \<open>Reading a decimal numeral back; used only to show that \<open>str_int\<close> is injective.\<close>

definition digit_val :: "char \<Rightarrow> nat" where
  "digit_val c = of_char c - 48"

definition nat_of_digits :: "string \<Rightarrow> nat" where
  "nat_of_digits s = foldl (\<lambda>a c. 10 * a + digit_val c) 0 s"

definition int_of_str :: "string \<Rightarrow> int" where
  "int_of_str s =
     (case s of
        [] \<Rightarrow> 0
      | c # r \<Rightarrow> if c = CHR ''-'' then - int (nat_of_digits r) else int (nat_of_digits s))"

section \<open>The cooldown store (Redis)\<close>

text \<open>
  The store holds, for each key, a value and an optional absolute expiry time, on a clock
  that counts whole seconds (the TTL command answers in seconds).  A key whose expiry
  time has been reached is gone.  \<open>reachable\<close> says whether a command sent now gets
  through.  When it does not, \<open>timing_out\<close> says how it fails: the store does not
  answer and the client raises its \<open>TimeoutError\<close>, or the connection is refused and
  the client raises its \<open>ConnectionError\<close>.
\<close>

record redis =
  reachable :: bool
  timing_out :: bool
  now :: nat
  entries :: "string \<rightharpoonup> (string \<times> nat option)"

definition link_error :: "redis \<Rightarrow> error" where
  "link_error r = (if timing_out r then RedisTimeoutError else RedisConnectionError)"

definition advance :: "nat \<Rightarrow> redis \<Rightarrow> redis" where
  "advance d r = r\<lparr>now := now r + d\<rparr>"

text \<open>
  TTL key: \<open>-2\<close> when the key does not exist, \<open>-1\<close> when it exists without expiry, the
  remaining seconds otherwise.  The command reads; the store is returned as it was.
\<close>

definition redis_ttl :: "redis \<Rightarrow> string \<Rightarrow> (error + int option) \<times> redis" where
  "redis_ttl r k =
     (if \<not> reachable r then (Inl (link_error r), r)
      else case entries r k of
             None \<Rightarrow> (Inr (Some (- 2)), r)
           | Some (v, None) \<Rightarrow> (Inr (Some (- 1)), r)
           | Some (v, Some e) \<Rightarrow>
               if now r < e then (Inr (Some (int (e - now r))), r) else (Inr (Some (- 2)), r))"

text \<open>SETEX key seconds value: overwrites the key and sets its expiry from now.\<close>

definition redis_setex :: "redis \<Rightarrow> string \<Rightarrow> int \<Rightarrow> string \<Rightarrow> (error + unit) \<times> redis" where
  "redis_setex r k secs v =
     (if \<not> reachable r then (Inl (link_error r), r)
      else if secs \<le> 0 then (Inl RedisResponseError, r)
      else (Inr (), r\<lparr>entries := (entries r)(k \<mapsto> (v, Some (now r + nat secs)))\<rparr>))"

section \<open>services/rate_limiter.py\<close>

record rate_limiter =
  prefix :: string
  ttl_seconds :: int

definition key :: "rate_limiter \<Rightarrow> int \<Rightarrow> string" where
  "key lim user_id = prefix lim @ '':user:'' @ str_int user_id"

definition get_limit_state ::
  "rate_limiter \<Rightarrow> redis \<Rightarrow> int \<Rightarrow> (error + (bool \<times> int)) \<times> redis" where
  "get_limit_state lim r user_id =
     (case redis_ttl r (key lim user_id) of
        (Inl e, r') \<Rightarrow> (Inl e, r')
      | (Inr ttl, r') \<Rightarrow>
          (case ttl of
             Some t \<Rightarrow> if t > 0 then (Inr (True, t), r') else (Inr (False, 0), r')
           | None \<Rightarrow> (Inr (False, 0), r')))"

definition touch :: "rate_limiter \<Rightarrow> redis \<Rightarrow> int \<Rightarrow> (error + unit) \<times> redis" where
  "touch lim r user_id = redis_setex r (key lim user_id) (ttl_seconds lim) ''1''"

section \<open>Text\<close>

text \<open>
  A Python \<open>str\<close> that carries user or model text is a list of code points.  Names that
  come from the configuration and store keys are \<open>string\<close>s.  \<open>py_isspace\<close> is the set of
  code points \<open>str.strip()\<close> removes; \<open>strip\<close> removes them at both ends.
\<close>

type_synonym pystr = "nat list"

definition py_isspace :: "nat \<Rightarrow> bool" where
  "py_isspace c \<longleftrightarrow>
     (9 \<le> c \<and> c \<le> 13) \<or> (28 \<le> c \<and> c \<le> 32) \<or> c = 133 \<or> c = 160 \<or> c = 5760
     \<or> (8192 \<le> c \<and> c \<le> 8202) \<or> c = 8232 \<or> c = 8233 \<or> c = 8239 \<or> c = 8287 \<or> c = 12288"

definition strip :: "pystr \<Rightarrow> pystr" where
  "strip s = rev (dropWhile py_isspace (rev (dropWhile py_isspace s)))"

section \<open>database/models.py and database/repository.py\<close>

text \<open>
  A row of the table \<open>messages\<close>.  \<open>id_col\<close> is the column \<open>id\<close>, the primary key.
  \<open>message_text\<close> is not nullable, \<open>response_text\<close> is.  \<open>created_at\<close> is set by the
  database server from its clock when the row is inserted.
\<close>

record message =
  id_col :: nat
  user_id :: int
  message_text :: pystr
  response_text :: "pystr option"
  created_at :: nat

text \<open>
  The database: the rows in the order of their insertion, the next value of the primary
  key sequence, the server's clock, and whether a statement sent now gets through.
  \<open>order_desc\<close> is how the engine carries out \<open>ORDER BY created_at DESC\<close> on the rows
  a query selects.  SQL fixes that the result holds the same rows, newest first, and
  leaves the order of rows with one timestamp to the engine: that is \<open>order_by_ok\<close>.
\<close>

record database =
  available :: bool
  clock :: nat
  next_id :: nat
  rows :: "message list"
  order_desc :: "message list \<Rightarrow> message list"

definition order_by_ok :: "(message list \<Rightarrow> message list) \<Rightarrow> message list \<Rightarrow> bool" where
  "order_by_ok srt ms \<longleftrightarrow>
     mset (srt ms) = mset ms \<and> sorted_wrt (\<lambda>a b. created_at b \<le> created_at a) (srt ms)"

definition create_message ::
  "database \<Rightarrow> int \<Rightarrow> pystr \<Rightarrow> pystr option \<Rightarrow> (error + message) \<times> database" where
  "create_message d uid mtext rtext =
     (if \<not> available d then (Inl DbError, d)
      else
        let m = \<lparr>id_col = next_id d, user_id = uid, message_text = mtext,
                 response_text = rtext, created_at = clock d\<rparr>
        in (Inr m, d\<lparr>next_id := Suc (next_id d), rows := rows d @ [m]\<rparr>))"

text \<open>
  The bound is a natural number: \<open>Config.validate\<close> refuses a negative
  \<open>max_context_messages\<close>, the only value the handler passes.
\<close>

definition get_recent_messages :: "database \<Rightarrow> int \<Rightarrow> nat \<Rightarrow> error + message list" where
  "get_recent_messages d uid limit =
     (if \<not> available d then Inl DbError
      else
        let messages = take limit (order_desc d (filter (\<lambda>m. user_id m = uid) (rows d)))
        in Inr (rev messages))"

text \<open>\<open>session.delete(message)\<close> removes the row with the primary key of \<open>message\<close>.\<close>

definition session_delete :: "message \<Rightarrow> message list \<Rightarrow> message list" where
  "session_delete m rs = filter (\<lambda>r. id_col r \<noteq> id_col m) rs"

definition delete_user_messages :: "database \<Rightarrow> int \<Rightarrow> (error + nat) \<times> database" where
  "delete_user_messages d uid =
     (if \<not> available d then (Inl DbError, d)
      else
        let messages = filter (\<lambda>m. user_id m = uid) (rows d);
            count = length messages
        in (Inr count, d\<lparr>rows := fold session_delete messages (rows d)\<rparr>))"

text \<open>The primary key constraint: no two rows share an \<open>id\<close>, and the sequence is ahead of all.\<close>

definition primary_key_ok :: "database \<Rightarrow> bool" where
  "primary_key_ok d \<longleftrightarrow>
     distinct (map id_col (rows d)) \<and> list_all (\<lambda>m. id_col m < next_id d) (rows d)"

section \<open>services/chatgpt.py\<close>

datatype language = Ru | En

text \<open>
  A message of the completion request.  \<open>System l\<close> is the fixed system prompt with the
  language marker \<open>l\<close> in it; \<open>User\<close> and \<open>Assistant\<close> carry their content.
\<close>

datatype fragment = System language | User pystr | Assistant pystr

text \<open>
  What one call of \<open>client.chat.completions.create\<close> does: it raises, or it returns a
  response whose choices each carry a content or none.
\<close>

datatype api_result = ApiRaises string | ApiReturns "pystr option list"

record chatgpt_service =
  model :: string
  fallback_model :: string

definition init_service :: "string \<Rightarrow> chatgpt_service" where
  "init_service openai_model_name =
     \<lparr>model = (if openai_model_name \<noteq> [] then openai_model_name else ''gpt-4o-mini''),
      fallback_model = ''gpt-4o-mini''\<rparr>"

text \<open>
  \<open>_detect_language\<close>: a character whose lower case lies between the Cyrillic small
  letters a (1072) and ya (1103), that is a code point from 1040 to 1103, or one of the two
  letters yo (1105, 1025), makes the text Russian.
\<close>

definition detect_language :: "pystr \<Rightarrow> language" where
  "detect_language txt =
     (if list_ex (\<lambda>ch. (1040 \<le> ch \<and> ch \<le> 1103) \<or> ch = 1105 \<or> ch = 1025) txt then Ru else En)"

definition build_messages :: "pystr \<Rightarrow> fragment list option \<Rightarrow> fragment list" where
  "build_messages user_message context_messages =
     [System (detect_language user_message)]
     @ (case context_messages of None \<Rightarrow> [] | Some c \<Rightarrow> c)
     @ [User user_message]"

text \<open>
  Iterating the set display \<open>{self.model, self.fallback_model}\<close>.  A set holds equal
  names once.  The order in which a Python set of two distinct strings is iterated
  follows their hash values, which the language does not fix; \<open>first\<close> stands for that
  order: \<open>first a b\<close> says that \<open>a\<close> is met before \<open>b\<close>.
\<close>

definition set_iter :: "(string \<Rightarrow> string \<Rightarrow> bool) \<Rightarrow> string \<Rightarrow> string \<Rightarrow> string list" where
  "set_iter first a b = (if a = b then [a] else if first a b then [a, b] else [b, a])"

text \<open>
  The loop of \<open>generate_response\<close> over the names still to try.  \<open>calls\<close> collects the
  names the completion call was made with, in order.  \<open>self.model\<close> is assigned as soon as
  the call returns, before the content is taken out of the response.
\<close>

fun attempt_models ::
  "(string \<Rightarrow> fragment list \<Rightarrow> api_result) \<Rightarrow> fragment list \<Rightarrow> string list \<Rightarrow>
   chatgpt_service \<Rightarrow> error option \<Rightarrow> string list \<Rightarrow>
   (error + pystr) \<times> chatgpt_service \<times> string list" where
  "attempt_models api msgs [] svc last_error calls = (Inl (CompletionError last_error), svc, calls)"
| "attempt_models api msgs (model_name # rest) svc last_error calls =
     (case api model_name msgs of
        ApiRaises e \<Rightarrow> attempt_models api msgs rest svc (Some (ApiError e)) (calls @ [model_name])
      | ApiReturns choices \<Rightarrow>
          (case choices of
             [] \<Rightarrow>
               attempt_models api msgs rest (svc\<lparr>model := model_name\<rparr>) (Some IndexError)
                 (calls @ [model_name])
           | None # _ \<Rightarrow>
               attempt_models api msgs rest (svc\<lparr>model := model_name\<rparr>) (Some AttributeError)
                 (calls @ [model_name])
           | Some content # _ \<Rightarrow>
               (Inr (strip content), svc\<lparr>model := model_name\<rparr>, calls @ [model_name])))"

text \<open>A completion call succeeds when it returns a response whose first choice has a content.\<close>

fun usable :: "api_result \<Rightarrow> bool" where
  "usable (ApiReturns (Some content # rest)) = True"
| "usable r = False"

definition generate_response ::
  "(string \<Rightarrow> string \<Rightarrow> bool) \<Rightarrow> (string \<Rightarrow> fragment list \<Rightarrow> api_result) \<Rightarrow>
   chatgpt_service \<Rightarrow> pystr \<Rightarrow> fragment list option \<Rightarrow>
   (error + pystr) \<times> chatgpt_service \<times> string list" where
  "generate_response first api svc user_message context_messages =
     attempt_models api (build_messages user_message context_messages)
       (set_iter first (model svc) (fallback_model svc)) svc None []"

text \<open>
  \<open>format_context_messages\<close>: the loop appends to \<open>formatted\<close>.  A text counts when it is
  truthy: present and not empty.
\<close>

definition format_step :: "fragment list \<Rightarrow> message \<Rightarrow> fragment list" where
  "format_step formatted msg =
     (let formatted1 =
            (if message_text msg \<noteq> [] then formatted @ [User (message_text msg)] else formatted)
      in case response_text msg of
           None \<Rightarrow> formatted1
         | Some t \<Rightarrow> if t \<noteq> [] then formatted1 @ [Assistant t] else formatted1)"

definition format_context_messages :: "message list \<Rightarrow> fragment list" where
  "format_context_messages messages = foldl format_step [] messages"

section \<open>handlers/messages.py\<close>

record config =
  openai_model :: string
  free_version_gpt :: bool
  max_context_messages :: nat

text \<open>
  An update from the chat transport: the text of the message (none for a photo, a
  sticker and so on) and the identifier of the sending user.
\<close>

record incoming =
  msg_text :: "pystr option"
  from_user_id :: int

text \<open>
  What the user is sent.  \<open>RateLimited\<close> carries the wait as the handler formats it:
  the minutes when there are any, and the seconds.  \<open>ErrorNotice\<close> carries the exception
  whose text the notice quotes.  \<open>HistoryCleared\<close> carries the number of removed rows when
  there were any, and nothing when the notice says that the history was empty.
\<close>

datatype outgoing =
    TextRequired
  | RateLimited "int option" int
  | Response pystr
  | ErrorNotice error
  | HistoryCleared "nat option"

text \<open>
  What a handler does to the outside, in the order it does it.  The flag of a store,
  database or completion event says whether the operation went through.  \<open>Uncaught\<close> is
  an exception no handler of the function catches.
\<close>

datatype event =
    RedisTtl string bool
  | RedisSetex string bool
  | SendChatAction
  | DbSelect int nat bool
  | ApiCall string bool
  | DbInsert int bool
  | DbDelete int bool
  | Answer outgoing
  | CallbackAnswer
  | Uncaught error

record world =
  w_redis :: redis
  w_db :: database

text \<open>
  What the surroundings decide during one turn: the iteration order of the set of model
  names, the outcome of each completion call, and whether the cooldown store and the
  database can still be reached by the time the handler comes to write to them.
\<close>

record env =
  hash_first :: "string \<Rightarrow> string \<Rightarrow> bool"
  completion_api :: "string \<Rightarrow> fragment list \<Rightarrow> api_result"
  db_up_at_insert :: bool
  redis_up_at_commit :: bool

text \<open>The condition of lines 25 and 79.\<close>

definition gate_active :: "config \<Rightarrow> bool" where
  "gate_active cfg \<longleftrightarrow> free_version_gpt cfg \<and> openai_model cfg = ''gpt-3.5-turbo''"

definition gpt35_limiter :: rate_limiter where
  "gpt35_limiter = \<lparr>prefix = ''rate_limit:gpt35'', ttl_seconds = 180\<rparr>"

text \<open>
  The completion calls of one \<open>generate_response\<close> as events: when it returned, the last
  call went through and the ones before it did not; when it raised, none did.
\<close>

definition api_events :: "bool \<Rightarrow> string list \<Rightarrow> event list" where
  "api_events returned calls =
     (if returned \<and> calls \<noteq> []
      then map (\<lambda>m. ApiCall m False) (butlast calls) @ [ApiCall (last calls) True]
      else map (\<lambda>m. ApiCall m False) calls)"

text \<open>
  Lines 78 to 84: the commit of the usage after the row is written.  The result names
  the exception that leaves the inner \<open>try\<close>, if any: a \<open>RedisConnectionError\<close> is
  swallowed there.
\<close>

definition commit_usage ::
  "config \<Rightarrow> env \<Rightarrow> rate_limiter option \<Rightarrow> int \<Rightarrow> redis \<Rightarrow> error option \<times> redis \<times> event list" where
  "commit_usage cfg ev limiter uid r =
     (case limiter of
        None \<Rightarrow> (None, r, [])
      | Some lim \<Rightarrow>
          if gate_active cfg then
            (case touch lim (r\<lparr>reachable := redis_up_at_commit ev\<rparr>) uid of
               (Inl e, r') \<Rightarrow>
                 (if e = RedisConnectionError then None else Some e, r',
                  [RedisSetex (key lim uid) False])
             | (Inr u, r') \<Rightarrow> (None, r', [RedisSetex (key lim uid) True]))
          else (None, r, []))"

text \<open>
  Lines 71 to 90: write the exchange, commit the usage, send the response.  Any
  exception on the way ends in the error notice of lines 92 to 98.
\<close>

definition persist_and_reply ::
  "config \<Rightarrow> env \<Rightarrow> int \<Rightarrow> pystr \<Rightarrow> rate_limiter option \<Rightarrow> pystr \<Rightarrow> world \<Rightarrow> world \<times> event list" where
  "persist_and_reply cfg ev uid txt limiter response w =
     (case create_message ((w_db w)\<lparr>available := db_up_at_insert ev\<rparr>) uid txt (Some response) of
        (Inl e, d') \<Rightarrow> (w\<lparr>w_db := d'\<rparr>, [DbInsert uid False, Answer (ErrorNotice e)])
      | (Inr row, d') \<Rightarrow>
          (case commit_usage cfg ev limiter uid (w_redis w) of
             (exc, r', evs) \<Rightarrow>
               (w\<lparr>w_redis := r', w_db := d'\<rparr>,
                [DbInsert uid True] @ evs
                @ [Answer (case exc of None \<Rightarrow> Response response | Some e \<Rightarrow> ErrorNotice e)])))"

text \<open>
  Lines 50 to 98 of \<open>handle_message\<close>: the body run with the database session, with the
  \<open>limiter\<close> the gate left (\<open>None\<close> when there is none).
\<close>

definition process_turn ::
  "config \<Rightarrow> env \<Rightarrow> incoming \<Rightarrow> pystr \<Rightarrow> rate_limiter option \<Rightarrow> world \<Rightarrow> world \<times> event list" where
  "process_turn cfg ev msg txt limiter w =
     (let uid = from_user_id msg;
          n = max_context_messages cfg;
          chatgpt_service = init_service (openai_model cfg)
      in case get_recent_messages (w_db w) uid n of
           Inl e \<Rightarrow> (w, [DbSelect uid n False, Answer (ErrorNotice e)])
         | Inr recent_messages \<Rightarrow>
             (let context_messages = format_context_messages recent_messages
              in case generate_response (hash_first ev) (completion_api ev) chatgpt_service txt
                        (if context_messages \<noteq> [] then Some context_messages else None) of
                   (Inl e, svc', calls) \<Rightarrow>
                     (w, [DbSelect uid n True] @ api_events False calls @ [Answer (ErrorNotice e)])
                 | (Inr response, svc', calls) \<Rightarrow>
                     (case persist_and_reply cfg ev uid txt limiter response w of
                        (w', tr) \<Rightarrow> (w', [DbSelect uid n True] @ api_events True calls @ tr))))"

definition wait_notice :: "int \<Rightarrow> outgoing" where
  "wait_notice retry_after =
     (let minutes = retry_after div 60;
          seconds = retry_after mod 60
      in RateLimited (if minutes \<noteq> 0 then Some minutes else None) seconds)"

definition handle_message :: "config \<Rightarrow> env \<Rightarrow> incoming \<Rightarrow> world \<Rightarrow> world \<times> event list" where
  "handle_message cfg ev msg w =
     (case msg_text msg of
        None \<Rightarrow> (w, [Answer TextRequired])
      | Some txt \<Rightarrow>
          if txt = [] then (w, [Answer TextRequired])
          else if gate_active cfg then
            (case get_limit_state gpt35_limiter (w_redis w) (from_user_id msg) of
               (Inl e, r') \<Rightarrow>
                 if e = RedisConnectionError then
                   (case process_turn cfg ev msg txt None (w\<lparr>w_redis := r'\<rparr>) of
                      (w', tr) \<Rightarrow>
                        (w', [RedisTtl (key gpt35_limiter (from_user_id msg)) False, SendChatAction]
                             @ tr))
                 else
                   (w\<lparr>w_redis := r'\<rparr>,
                    [RedisTtl (key gpt35_limiter (from_user_id msg)) False, Uncaught e])
             | (Inr (limited, retry_after), r') \<Rightarrow>
                 if limited then
                   (w\<lparr>w_redis := r'\<rparr>,
                    [RedisTtl (key gpt35_limiter (from_user_id msg)) True,
                     Answer (wait_notice retry_after)])
                 else
                   (case process_turn cfg ev msg txt (Some gpt35_limiter) (w\<lparr>w_redis := r'\<rparr>) of
                      (w', tr) \<Rightarrow>
                        (w', [RedisTtl (key gpt35_limiter (from_user_id msg)) True, SendChatAction]
                             @ tr)))
          else
            (case process_turn cfg ev msg txt None w of
               (w', tr) \<Rightarrow> (w', [SendChatAction] @ tr)))"

text \<open>\<open>handle_new_request\<close>: the button that resets the conversation of the pressing user.\<close>

definition handle_new_request :: "int \<Rightarrow> database \<Rightarrow> database \<times> event list" where
  "handle_new_request uid d =
     (case delete_user_messages d uid of
        (Inl e, d') \<Rightarrow> (d', [DbDelete uid False, Uncaught e])
      | (Inr deleted_count, d') \<Rightarrow>
          (d', [DbDelete uid True,
                Answer (HistoryCleared (if deleted_count > 0 then Some deleted_count else None)),
                CallbackAnswer]))"

section \<open>Example data\<close>

text \<open>
  A small history: user 7 has three exchanges, the second of them without a response,
  and user 8 has one.
\<close>

definition example_rows :: "message list" where
  "example_rows =
     [\<lparr>id_col = 1, user_id = 7, message_text = [72, 105], response_text = Some [79, 107],
       created_at = 10\<rparr>,
      \<lparr>id_col = 2, user_id = 8, message_text = [89, 111], response_text = Some [78, 111],
       created_at = 11\<rparr>,
      \<lparr>id_col = 3, user_id = 7, message_text = [66], response_text = None, created_at = 12\<rparr>,
      \<lparr>id_col = 4, user_id = 7, message_text = [67], response_text = Some [68],
       created_at = 15\<rparr>]"

text \<open>
  An engine that returns the rows of one timestamp in the order of their insertion, and
  one that returns them in the opposite order.
\<close>

definition ties_in_insertion_order :: "message list \<Rightarrow> message list" where
  "ties_in_insertion_order ms = sort_key (\<lambda>m. - int (created_at m)) ms"

definition ties_newest_insert_first :: "message list \<Rightarrow> message list" where
  "ties_newest_insert_first ms = rev (sort_key created_at ms)"

definition example_db :: database where
  "example_db =
     \<lparr>available = True, clock = 20, next_id = 5, rows = example_rows,
      order_desc = ties_in_insertion_order\<rparr>"



definition example_store :: redis where
  "example_store = \<lparr>reachable = True, timing_out = False, now = 0, entries = Map.empty\<rparr>"

text \<open>A store that does not answer: the client times out.\<close>

definition silent_store :: redis where
  "silent_store = \<lparr>reachable = False, timing_out = True, now = 0, entries = Map.empty\<rparr>"

definition example_world :: world where
  "example_world = \<lparr>w_redis = example_store, w_db = example_db\<rparr>"

text \<open>
  Surroundings in which every completion call raises, and surroundings in which every
  call answers \<open>ok\<close> with a blank on each side; in both, the set of names is iterated
  with the configured model first.
\<close>

definition failing_env :: env where
  "failing_env =
     \<lparr>hash_first = (\<lambda>a b. b = ''gpt-4o-mini''),
      completion_api = (\<lambda>m msgs. ApiRaises ''timeout''),
      db_up_at_insert = True, redis_up_at_commit = True\<rparr>"

definition answering_env :: env where
  "answering_env =
     \<lparr>hash_first = (\<lambda>a b. b = ''gpt-4o-mini''),
      completion_api = (\<lambda>m msgs. ApiReturns [Some [32, 111, 107, 32]]),
      db_up_at_insert = True, redis_up_at_commit = True\<rparr>"

definition free_tier_config :: config where
  "free_tier_config =
     \<lparr>openai_model = ''gpt-3.5-turbo'', free_version_gpt = True, max_context_messages = 5\<rparr>"

definition hello :: incoming where
  "hello = \<lparr>msg_text = Some [72, 105], from_user_id = 7\<rparr>"

section \<open>Properties of the rate limiter\<close>

lemma digit_val_digit_char: "d < 10 \<Longrightarrow> digit_val (digit_char d) = d"
  by (simp add: digit_val_def digit_char_def)

lemma nat_of_digits_snoc: "nat_of_digits (s @ [c]) = 10 * nat_of_digits s + digit_val c"
  by (simp add: nat_of_digits_def)

lemma nat_of_digits_str_nat: "nat_of_digits (str_nat n) = n"
proof (induction n rule: str_nat.induct)
  case (1 n)
  show ?case
  proof (cases "n < 10")
    case True
    then show ?thesis
      by (subst str_nat.simps) (simp add: nat_of_digits_def digit_val_digit_char)
  next
    case False
    have "nat_of_digits (str_nat n) = 10 * nat_of_digits (str_nat (n div 10)) + n mod 10"
      using False
      by (subst str_nat.simps) (simp add: nat_of_digits_snoc digit_val_digit_char)
    also have "\<dots> = 10 * (n div 10) + n mod 10"
      using 1 False by simp
    finally show ?thesis by simp
  qed
qed

lemma digit_char_not_minus: "d < 10 \<Longrightarrow> digit_char d \<noteq> CHR ''-''"
proof
  assume d: "d < 10" and eq: "digit_char d = CHR ''-''"
  have "digit_val (digit_char d) = digit_val CHR ''-''"
    using eq by simp
  then have "d = 0"
    using d by (simp add: digit_val_digit_char) (simp add: digit_val_def)
  then have "(of_char (digit_char 0) :: nat) = of_char CHR ''-''"
    using eq by simp
  then show False
    by (simp add: digit_char_def)
qed

lemma str_nat_shape: "\<exists>c r. str_nat n = c # r \<and> c \<noteq> CHR ''-''"
proof (induction n rule: str_nat.induct)
  case (1 n)
  show ?case
  proof (cases "n < 10")
    case True
    then show ?thesis
      by (subst str_nat.simps) (simp add: digit_char_not_minus)
  next
    case False
    then obtain c r where "str_nat (n div 10) = c # r" "c \<noteq> CHR ''-''"
      using 1 by blast
    then show ?thesis
      using False by (subst str_nat.simps) simp
  qed
qed

lemma int_of_str_str_int: "int_of_str (str_int i) = i"
proof (cases "i < 0")
  case True
  then show ?thesis
    by (simp add: str_int_def int_of_str_def nat_of_digits_str_nat)
next
  case False
  obtain c r where s: "str_nat (nat i) = c # r" "c \<noteq> CHR ''-''"
    using str_nat_shape by blast
  have "int_of_str (str_nat (nat i)) = int (nat_of_digits (str_nat (nat i)))"
    using s by (simp add: int_of_str_def)
  then show ?thesis
    using False by (simp add: str_int_def nat_of_digits_str_nat)
qed

lemma str_int_inject: "str_int i = str_int j \<Longrightarrow> i = j"
  by (metis int_of_str_str_int)

lemma key_inject: "key lim u = key lim v \<Longrightarrow> u = v"
  by (simp add: key_def str_int_inject)

lemma snd_redis_ttl: "snd (redis_ttl r k) = r"
  by (simp add: redis_ttl_def split: option.splits prod.splits)

lemma snd_get_limit_state: "snd (get_limit_state lim r u) = r"
proof -
  obtain a r' where t: "redis_ttl r (key lim u) = (a, r')"
    by (cases "redis_ttl r (key lim u)")
  then have "r' = r"
    using snd_redis_ttl [of r "key lim u"] by simp
  then show ?thesis
    using t by (simp add: get_limit_state_def split: sum.splits option.splits)
qed

lemma get_limit_state_reachable:
  "reachable r \<Longrightarrow>
   get_limit_state lim r u =
     (case entries r (key lim u) of
        None \<Rightarrow> (Inr (False, 0), r)
      | Some (v, None) \<Rightarrow> (Inr (False, 0), r)
      | Some (v, Some e) \<Rightarrow>
          if now r < e then (Inr (True, int (e - now r)), r) else (Inr (False, 0), r))"
  by (simp add: get_limit_state_def redis_ttl_def split: option.splits prod.splits)

lemma get_limit_state_unreachable:
  "\<not> reachable r \<Longrightarrow> get_limit_state lim r u = (Inl (link_error r), r)"
  by (simp add: get_limit_state_def redis_ttl_def)

lemma touch_reachable:
  "reachable r \<Longrightarrow> 0 < ttl_seconds lim \<Longrightarrow>
   touch lim r u =
     (Inr (), r\<lparr>entries := (entries r)(key lim u \<mapsto> (''1'', Some (now r + nat (ttl_seconds lim))))\<rparr>)"
  by (simp add: touch_def redis_setex_def)

lemma touch_unreachable: "\<not> reachable r \<Longrightarrow> touch lim r u = (Inl (link_error r), r)"
  by (simp add: touch_def redis_setex_def)

lemma touch_other_entry: "k \<noteq> key lim u \<Longrightarrow> entries (snd (touch lim r u)) k = entries r k"
  by (simp add: touch_def redis_setex_def)

lemma touch_keeps_clock:
  "reachable (snd (touch lim r u)) = reachable r \<and> now (snd (touch lim r u)) = now r
   \<and> timing_out (snd (touch lim r u)) = timing_out r"
  by (simp add: touch_def redis_setex_def)

text \<open>
  C5.  The check answers (blocked, remaining seconds) exactly when the user's marker is in
  the store with an expiry that lies in the future, the remaining seconds being the
  distance to that expiry; in every other case of a reachable store it answers
  (not blocked, 0).  Reachable or not, the store after the check is the store before it.
\<close>

theorem get_limit_state_blocked_iff_marker:
  assumes "reachable r"
  shows "snd (get_limit_state lim r u) = r
       \<and> (\<forall>t. fst (get_limit_state lim r u) = Inr (True, t) \<longleftrightarrow>
              0 < t \<and> (\<exists>v e. entries r (key lim u) = Some (v, Some e) \<and> now r < e
                          \<and> t = int e - int (now r)))
       \<and> ((\<nexists>v e. entries r (key lim u) = Some (v, Some e) \<and> now r < e) \<longrightarrow>
              fst (get_limit_state lim r u) = Inr (False, 0))"
proof (intro conjI)
  show "snd (get_limit_state lim r u) = r"
    by (rule snd_get_limit_state)
  show "\<forall>t. fst (get_limit_state lim r u) = Inr (True, t) \<longleftrightarrow>
              0 < t \<and> (\<exists>v e. entries r (key lim u) = Some (v, Some e) \<and> now r < e
                          \<and> t = int e - int (now r))"
    using assms
    by (auto simp: get_limit_state_reachable split: option.splits)
  show "(\<nexists>v e. entries r (key lim u) = Some (v, Some e) \<and> now r < e) \<longrightarrow>
              fst (get_limit_state lim r u) = Inr (False, 0)"
    using assms
    by (auto simp: get_limit_state_reachable split: option.splits)
qed

theorem get_limit_state_blocked_iff_marker_witness:
  "get_limit_state \<lparr>prefix = ''rate_limit:gpt35'', ttl_seconds = 180\<rparr>
     \<lparr>reachable = True, timing_out = False, now = 60,
      entries = [''rate_limit:gpt35:user:42'' \<mapsto> (''1'', Some 180)]\<rparr> 42
   = (Inr (True, 120),
      \<lparr>reachable = True, timing_out = False, now = 60,
       entries = [''rate_limit:gpt35:user:42'' \<mapsto> (''1'', Some 180)]\<rparr>)"
proof -
  let ?lim = "\<lparr>prefix = ''rate_limit:gpt35'', ttl_seconds = 180\<rparr>"
  let ?r = "\<lparr>reachable = True, timing_out = False, now = 60,
             entries = [''rate_limit:gpt35:user:42'' \<mapsto> (''1'', Some (180::nat))]\<rparr>"
  have k: "key ?lim 42 = ''rate_limit:gpt35:user:42''"
    by code_simp
  have "reachable ?r"
    by simp
  from get_limit_state_blocked_iff_marker [OF this, of ?lim 42]
  have s: "snd (get_limit_state ?lim ?r 42) = ?r"
    and f: "fst (get_limit_state ?lim ?r 42) = Inr (True, 120) \<longleftrightarrow>
              (0::int) < 120 \<and> (\<exists>v e. entries ?r (key ?lim 42) = Some (v, Some e) \<and> now ?r < e
                          \<and> (120::int) = int e - int (now ?r))"
    by blast+
  have "fst (get_limit_state ?lim ?r 42) = Inr (True, 120)"
    unfolding f k by simp
  with s show ?thesis
    by (simp add: prod_eq_iff)
qed

text \<open>
  C6.  On a reachable store and with a positive configured TTL, commit succeeds whatever
  the store held for the user, and right after it the check reports the full configured
  TTL.  A second commit, issued any number \<open>d\<close> of seconds after the first (also none),
  leaves the check at the full configured TTL again: the remaining time of the first
  marker is not added to it.
\<close>

theorem touch_twice_resets_ttl:
  assumes "reachable r" and "0 < ttl_seconds lim"
  shows "fst (touch lim r u) = Inr ()
       \<and> fst (get_limit_state lim (snd (touch lim r u)) u) = Inr (True, ttl_seconds lim)
       \<and> fst (touch lim (advance d (snd (touch lim r u))) u) = Inr ()
       \<and> fst (get_limit_state lim (snd (touch lim (advance d (snd (touch lim r u))) u)) u)
           = Inr (True, ttl_seconds lim)"
proof -
  have one: "\<And>r'. reachable r' \<Longrightarrow>
      fst (touch lim r' u) = Inr ()
    \<and> fst (get_limit_state lim (snd (touch lim r' u)) u) = Inr (True, ttl_seconds lim)"
    using assms(2) by (simp add: touch_reachable get_limit_state_reachable)
  have "reachable (advance d (snd (touch lim r u)))"
    using assms by (simp add: touch_reachable advance_def)
  from one [OF assms(1)] one [OF this] show ?thesis
    by simp
qed

theorem touch_twice_resets_ttl_witness:
  "fst (get_limit_state \<lparr>prefix = ''rate_limit:gpt35'', ttl_seconds = 180\<rparr>
     (snd (touch \<lparr>prefix = ''rate_limit:gpt35'', ttl_seconds = 180\<rparr>
        (advance 60
           (snd (touch \<lparr>prefix = ''rate_limit:gpt35'', ttl_seconds = 180\<rparr>
              \<lparr>reachable = True, timing_out = False, now = 0, entries = Map.empty\<rparr> 7))) 7)) 7)
   = Inr (True, 180)"
  using touch_twice_resets_ttl
    [of "\<lparr>reachable = True, timing_out = False, now = 0, entries = Map.empty\<rparr>"
        "\<lparr>prefix = ''rate_limit:gpt35'', ttl_seconds = 180\<rparr>" 7 60]
  by simp

text \<open>
  C10.  Two distinct user identifiers get distinct keys under one limiter, and a commit for
  one of them does not change what the check answers for the other.
\<close>

theorem touch_other_user_unchanged:
  assumes "u \<noteq> v"
  shows "key lim u \<noteq> key lim v
       \<and> fst (get_limit_state lim (snd (touch lim r u)) v) = fst (get_limit_state lim r v)"
proof -
  have k: "key lim v \<noteq> key lim u"
    using assms key_inject by blast
  have e: "entries (snd (touch lim r u)) (key lim v) = entries r (key lim v)"
    using k by (rule touch_other_entry)
  have "fst (get_limit_state lim (snd (touch lim r u)) v) = fst (get_limit_state lim r v)"
  proof (cases "reachable r")
    case True
    then have "reachable (snd (touch lim r u))"
      by (simp add: touch_keeps_clock)
    then show ?thesis
      using True e
      by (simp add: get_limit_state_reachable touch_keeps_clock split: option.splits)
  next
    case False
    then have "\<not> reachable (snd (touch lim r u))"
      by (simp add: touch_keeps_clock)
    then show ?thesis
      using False by (simp add: get_limit_state_unreachable link_error_def touch_keeps_clock)
  qed
  with k show ?thesis
    by simp
qed

theorem touch_other_user_unchanged_witness:
  "key \<lparr>prefix = ''rate_limit:gpt35'', ttl_seconds = 180\<rparr> 1
     \<noteq> key \<lparr>prefix = ''rate_limit:gpt35'', ttl_seconds = 180\<rparr> 11
   \<and> fst (get_limit_state \<lparr>prefix = ''rate_limit:gpt35'', ttl_seconds = 180\<rparr>
        (snd (touch \<lparr>prefix = ''rate_limit:gpt35'', ttl_seconds = 180\<rparr>
           \<lparr>reachable = True, timing_out = False, now = 0, entries = Map.empty\<rparr> 1)) 11)
     = Inr (False, 0)"
proof -
  have "(1::int) \<noteq> 11"
    by simp
  from touch_other_user_unchanged [OF this,
      of "\<lparr>prefix = ''rate_limit:gpt35'', ttl_seconds = 180\<rparr>"
         "\<lparr>reachable = True, timing_out = False, now = 0, entries = Map.empty\<rparr>"]
  show ?thesis
    by (simp add: get_limit_state_reachable)
qed

section \<open>Properties of the context assembler\<close>







lemma ties_newest_insert_first_ok: "order_by_ok ties_newest_insert_first ms"
proof -
  have "sorted (map created_at (sort_key created_at ms))"
    by (rule sorted_sort_key)
  then have "sorted_wrt (\<lambda>a b. created_at a \<le> created_at b) (sort_key created_at ms)"
    by (simp add: sorted_map)
  then have "sorted_wrt (\<lambda>a b. created_at b \<le> created_at a) (rev (sort_key created_at ms))"
    by (simp add: sorted_wrt_rev)
  then show ?thesis
    by (simp add: order_by_ok_def ties_newest_insert_first_def)
qed



section \<open>Properties of the conversation reset\<close>

lemma fold_session_delete:
  "fold session_delete ms rs = filter (\<lambda>r. id_col r \<notin> id_col ` set ms) rs"
proof (induction ms arbitrary: rs)
  case Nil
  then show ?case by simp
next
  case (Cons m ms)
  have "fold session_delete (m # ms) rs = fold session_delete ms (session_delete m rs)"
    by simp
  also have "\<dots> = filter (\<lambda>r. id_col r \<notin> id_col ` set ms) (session_delete m rs)"
    by (rule Cons.IH)
  also have "\<dots> = filter (\<lambda>r. id_col r \<notin> id_col ` set (m # ms)) rs"
    unfolding session_delete_def by (auto intro!: filter_cong)
  finally show ?case .
qed

lemma deleted_ids_are_the_users:
  assumes "distinct (map id_col rs)" and "r \<in> set rs"
  shows "id_col r \<in> id_col ` set (filter (\<lambda>m. user_id m = u) rs) \<longleftrightarrow> user_id r = u"
proof
  assume "id_col r \<in> id_col ` set (filter (\<lambda>m. user_id m = u) rs)"
  then obtain m where m: "m \<in> set rs" "user_id m = u" "id_col m = id_col r"
    by auto
  have "inj_on id_col (set rs)"
    using assms(1) by (simp add: distinct_map)
  then have "m = r"
    using m assms(2) by (simp add: inj_on_def)
  then show "user_id r = u"
    using m by simp
next
  assume "user_id r = u"
  then show "id_col r \<in> id_col ` set (filter (\<lambda>m. user_id m = u) rs)"
    using assms(2) by auto
qed

lemma delete_user_messages_rows:
  assumes "available d" and "distinct (map id_col (rows d))"
  shows "delete_user_messages d u =
           (Inr (length (filter (\<lambda>m. user_id m = u) (rows d))),
            d\<lparr>rows := filter (\<lambda>m. user_id m \<noteq> u) (rows d)\<rparr>)"
proof -
  have "filter (\<lambda>r. id_col r \<notin> id_col ` set (filter (\<lambda>m. user_id m = u) (rows d))) (rows d)
        = filter (\<lambda>m. user_id m \<noteq> u) (rows d)"
    using deleted_ids_are_the_users [OF assms(2)] by (intro filter_cong) auto
  then show ?thesis
    using assms(1) by (simp add: delete_user_messages_def Let_def fold_session_delete)
qed

lemma create_message_keeps_primary_key:
  "primary_key_ok d \<Longrightarrow> primary_key_ok (snd (create_message d u t r))"
  by (auto simp: primary_key_ok_def create_message_def Let_def list_all_iff)

lemma delete_user_messages_keeps_primary_key:
  "primary_key_ok d \<Longrightarrow> primary_key_ok (snd (delete_user_messages d u))"
proof (cases "available d")
  case True
  assume pk: "primary_key_ok d"
  then have "distinct (map id_col (rows d))"
    by (simp add: primary_key_ok_def)
  from delete_user_messages_rows [OF True this, of u] pk show ?thesis
    by (simp add: primary_key_ok_def list_all_iff distinct_map_filter)
next
  case False
  assume "primary_key_ok d"
  then show ?thesis
    using False by (simp add: delete_user_messages_def)
qed

text \<open>
  C9.  With the database available and the primary key in order, the reset returns the
  number of exchanges the user had, leaves none of them, leaves the exchanges of every
  other user as they were, and tells the user the number removed (or, when that number
  is zero, that the history was empty).
\<close>

theorem reset_deletes_exactly_users_rows:
  assumes "available d" and "primary_key_ok d"
  shows "fst (delete_user_messages d u) = Inr (length (filter (\<lambda>m. user_id m = u) (rows d)))
       \<and> filter (\<lambda>m. user_id m = u) (rows (snd (delete_user_messages d u))) = []
       \<and> (\<forall>v. v \<noteq> u \<longrightarrow>
            filter (\<lambda>m. user_id m = v) (rows (snd (delete_user_messages d u)))
            = filter (\<lambda>m. user_id m = v) (rows d))
       \<and> fst (handle_new_request u d) = snd (delete_user_messages d u)
       \<and> snd (handle_new_request u d)
           = [DbDelete u True,
              Answer (HistoryCleared
                (if 0 < length (filter (\<lambda>m. user_id m = u) (rows d))
                 then Some (length (filter (\<lambda>m. user_id m = u) (rows d))) else None)),
              CallbackAnswer]"
proof -
  have pk: "distinct (map id_col (rows d))"
    using assms(2) by (simp add: primary_key_ok_def)
  note del = delete_user_messages_rows [OF assms(1) pk, of u]
  have others: "\<And>v. v \<noteq> u \<Longrightarrow>
      filter (\<lambda>m. user_id m = v) (filter (\<lambda>m. user_id m \<noteq> u) (rows d))
      = filter (\<lambda>m. user_id m = v) (rows d)"
    by (auto intro!: filter_cong)
  show ?thesis
    using others by (simp add: del handle_new_request_def)
qed

theorem reset_deletes_exactly_users_rows_witness:
  "available example_db \<and> primary_key_ok example_db
   \<and> fst (delete_user_messages example_db 7) = Inr 3
   \<and> filter (\<lambda>m. user_id m = 8) (rows (snd (delete_user_messages example_db 7)))
       = filter (\<lambda>m. user_id m = 8) example_rows
   \<and> snd (handle_new_request 7 example_db)
       = [DbDelete 7 True, Answer (HistoryCleared (Some 3)), CallbackAnswer]"
proof -
  have a: "available example_db"
    by (simp add: example_db_def)
  have p: "primary_key_ok example_db"
    by (simp add: example_db_def example_rows_def primary_key_ok_def)
  have "(8::int) \<noteq> 7"
    by simp
  with reset_deletes_exactly_users_rows [OF a p, of 7] a p show ?thesis
    by (simp add: example_db_def example_rows_def)
qed

section \<open>Properties of the completion client\<close>





lemma attempt_models_all_fail:
  "\<forall>m\<in>set names. \<not> usable (api m msgs) \<Longrightarrow>
   \<exists>e svc'. attempt_models api msgs names svc lerr calls
              = (Inl (CompletionError e), svc', calls @ names)"
proof (induction names arbitrary: svc lerr calls)
  case Nil
  then show ?case by simp
next
  case (Cons m names)
  have rest: "\<forall>m\<in>set names. \<not> usable (api m msgs)"
    using Cons.prems by simp
  have m: "\<not> usable (api m msgs)"
    using Cons.prems by simp
  show ?case
  proof (cases "api m msgs")
    case (ApiRaises e)
    then show ?thesis
      using Cons.IH [OF rest, of svc "Some (ApiError e)" "calls @ [m]"] by simp
  next
    case (ApiReturns choices)
    show ?thesis
    proof (cases choices)
      case Nil
      then show ?thesis
        using ApiReturns
          Cons.IH [OF rest, of "svc\<lparr>model := m\<rparr>" "Some IndexError" "calls @ [m]"]
        by simp
    next
      case (Cons c cs)
      then have "c = None"
        using m ApiReturns by (cases c) simp_all
      then show ?thesis
        using Cons ApiReturns
          Cons.IH [OF rest, of "svc\<lparr>model := m\<rparr>" "Some AttributeError" "calls @ [m]"]
        by simp
    qed
  qed
qed

lemma attempt_models_returned_calls:
  "attempt_models api msgs names svc lerr calls = (Inr r, svc', calls') \<Longrightarrow> calls' \<noteq> []"
proof (induction names arbitrary: svc lerr calls)
  case Nil
  then show ?case by simp
next
  case (Cons m names)
  then show ?case
    by (auto split: api_result.splits list.splits option.splits)
qed

lemma set_iter_members: "set (set_iter first a b) = {a, b}"
  by (auto simp: set_iter_def)

lemma generate_response_all_fail:
  assumes "\<forall>msgs. \<not> usable (api (model svc) msgs) \<and> \<not> usable (api (fallback_model svc) msgs)"
  shows "\<exists>e svc' calls. generate_response first api svc t ctx = (Inl (CompletionError e), svc', calls)"
proof -
  have "\<forall>m\<in>set (set_iter first (model svc) (fallback_model svc)).
          \<not> usable (api m (build_messages t ctx))"
    using assms by (simp add: set_iter_members)
  then have "\<exists>e svc'.
          attempt_models api (build_messages t ctx)
            (set_iter first (model svc) (fallback_model svc)) svc None []
          = (Inl (CompletionError e), svc', [] @ set_iter first (model svc) (fallback_model svc))"
    by (rule attempt_models_all_fail)
  then show ?thesis
    by (auto simp: generate_response_def)
qed

lemma generate_response_returned_calls:
  "generate_response first api svc t ctx = (Inr r, svc', calls) \<Longrightarrow> calls \<noteq> []"
  unfolding generate_response_def by (rule attempt_models_returned_calls)

text \<open>Whatever the order, a failing primary and a usable fallback give the fallback's output.\<close>

lemma generate_response_fallback_output:
  assumes "\<not> usable (api (model svc) (build_messages t ctx))"
    and "api (fallback_model svc) (build_messages t ctx) = ApiReturns (Some c # rest)"
  shows "fst (generate_response first api svc t ctx) = Inr (strip c)
       \<and> model (fst (snd (generate_response first api svc t ctx))) = fallback_model svc"
proof -
  have ne: "model svc \<noteq> fallback_model svc"
    using assms by auto
  show ?thesis
  proof (cases "first (model svc) (fallback_model svc)")
    case True
    then show ?thesis
      using assms ne
      by (cases "api (model svc) (build_messages t ctx)")
         (auto simp: generate_response_def set_iter_def split: list.splits option.splits)
  next
    case False
    then show ?thesis
      using assms ne by (simp add: generate_response_def set_iter_def)
  qed
qed

lemma strip_no_outer_space:
  "strip s = [] \<or> (\<not> py_isspace (hd (strip s)) \<and> \<not> py_isspace (last (strip s)))"
proof (cases "strip s = []")
  case True
  then show ?thesis by simp
next
  case False
  let ?a = "dropWhile py_isspace s"
  let ?b = "dropWhile py_isspace (rev ?a)"
  have b: "?b \<noteq> []"
    using False by (simp add: strip_def)
  then have "\<not> py_isspace (hd ?b)"
    by (rule hd_dropWhile)
  then have l: "\<not> py_isspace (last (strip s))"
    using b by (simp add: strip_def last_rev)
  have "\<And>xs. xs = [] \<Longrightarrow> dropWhile py_isspace (rev xs) = []"
    by simp
  then have a: "?a \<noteq> []"
    using b by blast
  then have ha: "\<not> py_isspace (hd ?a)"
    by (rule hd_dropWhile)
  have "\<exists>ys. rev ?a = ys @ ?b"
    by (metis takeWhile_dropWhile_id)
  then obtain ys where "rev ?a = ys @ ?b"
    by blast
  then have "?a = rev ?b @ rev ys"
    by (metis rev_append rev_rev_ident)
  then have "hd ?a = hd (rev ?b)"
    using b by (metis hd_append2 rev_is_Nil_conv)
  then have "\<not> py_isspace (hd (strip s))"
    using ha by (simp add: strip_def)
  with l show ?thesis by simp
qed

text \<open>
  C2.  The claim has the primary model tried first.  Here both models would answer, the
  primary is \<open>gpt-3.5-turbo\<close>, and the set of the two names is iterated with
  \<open>gpt-4o-mini\<close> first: the only call made is the one to the fallback, its answer is
  returned, and the fallback becomes the remembered model.
\<close>

theorem fallback_tried_first:
  "generate_response (\<lambda>a b. a = ''gpt-4o-mini'')
     (\<lambda>m msgs. if m = ''gpt-3.5-turbo'' then ApiReturns [Some [80]] else ApiReturns [Some [70]])
     (init_service ''gpt-3.5-turbo'') [72, 105] None
   = (Inr [70], \<lparr>model = ''gpt-4o-mini'', fallback_model = ''gpt-4o-mini''\<rparr>, [''gpt-4o-mini''])"
  by (simp add: generate_response_def set_iter_def init_service_def strip_def py_isspace_def)

section \<open>Properties of the message handler\<close>

lemma get_limit_state_error:
  "get_limit_state lim r u = (Inl e, r') \<Longrightarrow> e = link_error r \<and> \<not> reachable r \<and> r' = r"
  by (cases "reachable r")
     (auto simp: get_limit_state_reachable get_limit_state_unreachable
        split: option.splits if_splits)

lemma get_limit_state_answer:
  "get_limit_state lim r u = (Inr a, r') \<Longrightarrow> reachable r \<and> r' = r"
  by (cases "reachable r")
     (auto simp: get_limit_state_reachable get_limit_state_unreachable
        split: option.splits if_splits)

lemma touch_error:
  "touch lim r u = (Inl e, r') \<Longrightarrow>
   e = RedisConnectionError \<or> e = RedisTimeoutError \<or> e = RedisResponseError"
  by (auto simp: touch_def redis_setex_def link_error_def split: if_splits)

lemma commit_usage_shape:
  assumes "commit_usage cfg ev limiter uid r = (exc, r', evs)"
  shows "(evs = [] \<and> r' = r \<and> exc = None)
       \<or> (\<exists>lim b. limiter = Some lim \<and> gate_active cfg \<and> evs = [RedisSetex (key lim uid) b]
             \<and> (exc = None \<or> exc = Some RedisResponseError \<or> exc = Some RedisTimeoutError))"
proof (cases limiter)
  case None
  then show ?thesis
    using assms by (simp add: commit_usage_def)
next
  case (Some lim)
  show ?thesis
  proof (cases "gate_active cfg")
    case False
    then show ?thesis
      using assms Some by (simp add: commit_usage_def)
  next
    case True
    obtain res r2 where t: "touch lim (r\<lparr>reachable := redis_up_at_commit ev\<rparr>) uid = (res, r2)"
      by (cases "touch lim (r\<lparr>reachable := redis_up_at_commit ev\<rparr>) uid") auto
    show ?thesis
    proof (cases res)
      case (Inl e)
      then have "e = RedisConnectionError \<or> e = RedisTimeoutError \<or> e = RedisResponseError"
        using t touch_error by blast
      then show ?thesis
        using assms Some True t Inl by (auto simp: commit_usage_def)
    next
      case (Inr u)
      then show ?thesis
        using assms Some True t by (auto simp: commit_usage_def)
    qed
  qed
qed

lemma commit_usage_None: "commit_usage cfg ev None uid r = (None, r, [])"
  by (simp add: commit_usage_def)

lemma commit_usage_gate_off: "\<not> gate_active cfg \<Longrightarrow> commit_usage cfg ev limiter uid r = (None, r, [])"
  by (simp add: commit_usage_def split: option.splits)

lemma persist_and_reply_shape:
  assumes "persist_and_reply cfg ev uid txt limiter response w = (w', tr)"
  shows "(tr = [DbInsert uid False, Answer (ErrorNotice DbError)]
          \<and> rows (w_db w') = rows (w_db w) \<and> w_redis w' = w_redis w)
       \<or> (\<exists>row. rows (w_db w') = rows (w_db w) @ [row] \<and> user_id row = uid
              \<and> message_text row = txt \<and> response_text row = Some response
              \<and> ((tr = [DbInsert uid True, Answer (Response response)] \<and> w_redis w' = w_redis w)
                 \<or> (\<exists>lim b a. limiter = Some lim \<and> gate_active cfg
                       \<and> tr = [DbInsert uid True, RedisSetex (key lim uid) b, Answer a]
                       \<and> (a = Response response \<or> a = ErrorNotice RedisResponseError
                           \<or> a = ErrorNotice RedisTimeoutError))))"
proof (cases "db_up_at_insert ev")
  case False
  then show ?thesis
    using assms by (auto simp: persist_and_reply_def create_message_def)
next
  case True
  obtain exc r' evs where c: "commit_usage cfg ev limiter uid (w_redis w) = (exc, r', evs)"
    by (cases "commit_usage cfg ev limiter uid (w_redis w)") auto
  from commit_usage_shape [OF c] show ?thesis
    using assms True c
    by (auto simp: persist_and_reply_def create_message_def Let_def)
qed

lemma api_events_False: "api_events False calls = map (\<lambda>m. ApiCall m False) calls"
  by (simp add: api_events_def)

lemma api_events_True:
  "calls \<noteq> [] \<Longrightarrow>
   api_events True calls = map (\<lambda>m. ApiCall m False) (butlast calls) @ [ApiCall (last calls) True]"
  by (simp add: api_events_def)

lemma attempt_models_error:
  "attempt_models api msgs names svc lerr calls = (Inl e, svc', calls') \<Longrightarrow>
   \<exists>x. e = CompletionError x"
proof (induction names arbitrary: svc lerr calls)
  case Nil
  then show ?case by auto
next
  case (Cons m names)
  then show ?case
    by (auto split: api_result.splits list.splits option.splits)
qed

lemma generate_response_error:
  "generate_response first api svc t ctx = (Inl e, svc', calls) \<Longrightarrow> \<exists>x. e = CompletionError x"
  unfolding generate_response_def by (rule attempt_models_error)

text \<open>The three ways a turn can go.\<close>

lemma process_turn_shape:
  assumes "process_turn cfg ev msg txt limiter w = (w', tr)"
  shows "(\<not> available (w_db w) \<and> w' = w
          \<and> tr = [DbSelect (from_user_id msg) (max_context_messages cfg) False,
                  Answer (ErrorNotice DbError)])
       \<or> (available (w_db w) \<and> w' = w
          \<and> (\<exists>x calls. tr = [DbSelect (from_user_id msg) (max_context_messages cfg) True]
                 @ map (\<lambda>m. ApiCall m False) calls @ [Answer (ErrorNotice (CompletionError x))]))
       \<or> (available (w_db w)
          \<and> (\<exists>failed m response tr2.
                tr = [DbSelect (from_user_id msg) (max_context_messages cfg) True]
                     @ map (\<lambda>m. ApiCall m False) failed @ [ApiCall m True] @ tr2
              \<and> persist_and_reply cfg ev (from_user_id msg) txt limiter response w = (w', tr2)))"
proof (cases "available (w_db w)")
  case False
  then show ?thesis
    using assms by (auto simp: process_turn_def get_recent_messages_def)
next
  case True
  let ?uid = "from_user_id msg"
  let ?n = "max_context_messages cfg"
  obtain recent where rec: "get_recent_messages (w_db w) ?uid ?n = Inr recent"
    using True by (simp add: get_recent_messages_def)
  let ?ctx = "if format_context_messages recent \<noteq> [] then Some (format_context_messages recent)
              else None"
  obtain res svc' calls where
    g: "generate_response (hash_first ev) (completion_api ev) (init_service (openai_model cfg))
          txt ?ctx = (res, svc', calls)"
    using prod_cases3 by blast
  show ?thesis
  proof (cases res)
    case (Inl e)
    then obtain x where "e = CompletionError x"
      using g generate_response_error by blast
    then have "w' = w \<and> tr = [DbSelect ?uid ?n True] @ map (\<lambda>m. ApiCall m False) calls
                 @ [Answer (ErrorNotice (CompletionError x))]"
      using assms rec g Inl by (auto simp: process_turn_def Let_def api_events_False)
    then show ?thesis
      using True by blast
  next
    case (Inr response)
    then have ne: "calls \<noteq> []"
      using g generate_response_returned_calls by blast
    obtain w2 tr2 where p: "persist_and_reply cfg ev ?uid txt limiter response w = (w2, tr2)"
      by (cases "persist_and_reply cfg ev ?uid txt limiter response w") auto
    have "w' = w2 \<and> tr = [DbSelect ?uid ?n True] @ map (\<lambda>m. ApiCall m False) (butlast calls)
                 @ [ApiCall (last calls) True] @ tr2"
      using assms rec g Inr p ne by (auto simp: process_turn_def Let_def api_events_True)
    then show ?thesis
      using True p by blast
  qed
qed


lemma persist_and_reply_flag:
  "persist_and_reply (cfg\<lparr>free_version_gpt := b\<rparr>) ev uid txt None response w
   = persist_and_reply cfg ev uid txt None response w"
  unfolding persist_and_reply_def commit_usage_None by simp

lemma process_turn_flag:
  "process_turn (cfg\<lparr>free_version_gpt := b\<rparr>) ev msg txt None w = process_turn cfg ev msg txt None w"
  unfolding process_turn_def persist_and_reply_flag by simp

lemma world_same_redis: "w\<lparr>w_redis := w_redis w\<rparr> = w"
  by simp

text \<open>The four ways \<open>handle_message\<close> can go on a message with text.\<close>

lemma handle_message_shape:
  assumes "handle_message cfg ev msg w = (w', tr)" and "msg_text msg = Some txt" and "txt \<noteq> []"
  shows "(\<not> gate_active cfg
          \<and> (\<exists>tr1. tr = [SendChatAction] @ tr1 \<and> process_turn cfg ev msg txt None w = (w', tr1)))
       \<or> (gate_active cfg \<and> \<not> reachable (w_redis w) \<and> \<not> timing_out (w_redis w)
          \<and> (\<exists>tr1. tr = [RedisTtl (key gpt35_limiter (from_user_id msg)) False, SendChatAction] @ tr1
                 \<and> process_turn cfg ev msg txt None w = (w', tr1)))
       \<or> (gate_active cfg \<and> reachable (w_redis w) \<and> w' = w
          \<and> (\<exists>t. fst (get_limit_state gpt35_limiter (w_redis w) (from_user_id msg)) = Inr (True, t)
                 \<and> tr = [RedisTtl (key gpt35_limiter (from_user_id msg)) True,
                         Answer (wait_notice t)]))
       \<or> (gate_active cfg \<and> reachable (w_redis w)
          \<and> (\<exists>t. fst (get_limit_state gpt35_limiter (w_redis w) (from_user_id msg)) = Inr (False, t))
          \<and> (\<exists>tr1. tr = [RedisTtl (key gpt35_limiter (from_user_id msg)) True, SendChatAction] @ tr1
                 \<and> process_turn cfg ev msg txt (Some gpt35_limiter) w = (w', tr1)))
       \<or> (gate_active cfg \<and> \<not> reachable (w_redis w) \<and> timing_out (w_redis w) \<and> w' = w
          \<and> tr = [RedisTtl (key gpt35_limiter (from_user_id msg)) False,
                  Uncaught RedisTimeoutError])"
proof (cases "gate_active cfg")
  case False
  then show ?thesis
    using assms by (auto simp: handle_message_def split: prod.splits)
next
  case True
  let ?uid = "from_user_id msg"
  obtain res r' where g: "get_limit_state gpt35_limiter (w_redis w) ?uid = (res, r')"
    by (cases "get_limit_state gpt35_limiter (w_redis w) ?uid") auto
  show ?thesis
  proof (cases res)
    case (Inl e)
    then have "e = link_error (w_redis w) \<and> \<not> reachable (w_redis w) \<and> r' = w_redis w"
      using g get_limit_state_error by blast
    then show ?thesis
      using assms True g Inl
      by (cases "timing_out (w_redis w)")
         (auto simp: handle_message_def link_error_def split: prod.splits)
  next
    case (Inr a)
    then have r: "reachable (w_redis w) \<and> r' = w_redis w"
      using g get_limit_state_answer by blast
    obtain limited t where a: "a = (limited, t)"
      by (cases a) auto
    show ?thesis
    proof (cases limited)
      case True
      then show ?thesis
        using assms \<open>gate_active cfg\<close> g Inr r a by (auto simp: handle_message_def)
    next
      case False
      then show ?thesis
        using assms \<open>gate_active cfg\<close> g Inr r a
        by (auto simp: handle_message_def split: prod.splits)
    qed
  qed
qed

lemma handle_message_no_text:
  "msg_text msg = None \<or> msg_text msg = Some [] \<Longrightarrow>
   handle_message cfg ev msg w = (w, [Answer TextRequired])"
  by (auto simp: handle_message_def)

lemma set_iter_nonempty: "set_iter first a b \<noteq> []"
  by (simp add: set_iter_def)

lemma generate_response_all_fail_calls:
  assumes "\<forall>msgs. \<not> usable (api (model svc) msgs) \<and> \<not> usable (api (fallback_model svc) msgs)"
  shows "\<exists>e svc' calls. calls \<noteq> []
           \<and> generate_response first api svc t ctx = (Inl (CompletionError e), svc', calls)"
proof -
  have "\<forall>m\<in>set (set_iter first (model svc) (fallback_model svc)).
          \<not> usable (api m (build_messages t ctx))"
    using assms by (simp add: set_iter_members)
  then have "\<exists>e svc'.
          attempt_models api (build_messages t ctx)
            (set_iter first (model svc) (fallback_model svc)) svc None []
          = (Inl (CompletionError e), svc', [] @ set_iter first (model svc) (fallback_model svc))"
    by (rule attempt_models_all_fail)
  then show ?thesis
    using set_iter_nonempty [of first "model svc" "fallback_model svc"]
    by (auto simp: generate_response_def)
qed

lemma process_turn_all_fail:
  assumes "\<forall>msgs. \<not> usable (completion_api ev (model (init_service (openai_model cfg))) msgs)
              \<and> \<not> usable (completion_api ev (fallback_model (init_service (openai_model cfg))) msgs)"
    and "process_turn cfg ev msg txt limiter w = (w', tr)"
  shows "w' = w
       \<and> (tr = [DbSelect (from_user_id msg) (max_context_messages cfg) False,
                Answer (ErrorNotice DbError)]
          \<or> (\<exists>x calls. calls \<noteq> []
                \<and> tr = [DbSelect (from_user_id msg) (max_context_messages cfg) True]
                     @ map (\<lambda>m. ApiCall m False) calls
                     @ [Answer (ErrorNotice (CompletionError x))]))"
proof (cases "available (w_db w)")
  case False
  then show ?thesis
    using assms(2) by (auto simp: process_turn_def get_recent_messages_def)
next
  case True
  let ?uid = "from_user_id msg"
  let ?n = "max_context_messages cfg"
  obtain recent where rec: "get_recent_messages (w_db w) ?uid ?n = Inr recent"
    using True by (simp add: get_recent_messages_def)
  let ?ctx = "if format_context_messages recent \<noteq> [] then Some (format_context_messages recent)
              else None"
  obtain x svc' calls where
    g: "generate_response (hash_first ev) (completion_api ev) (init_service (openai_model cfg))
          txt ?ctx = (Inl (CompletionError x), svc', calls)" and ne: "calls \<noteq> []"
    using generate_response_all_fail_calls [OF assms(1)] by blast
  have "w' = w \<and> tr = [DbSelect ?uid ?n True] @ map (\<lambda>m. ApiCall m False) calls
                 @ [Answer (ErrorNotice (CompletionError x))]"
    using assms(2) rec g by (auto simp: process_turn_def Let_def api_events_False)
  then show ?thesis
    using ne by blast
qed

lemma persist_and_reply_commits:
  assumes "persist_and_reply cfg ev uid txt (Some lim) response w = (w', tr)"
    and "gate_active cfg" and "Answer (Response r) \<in> set tr"
  shows "\<exists>b. RedisSetex (key lim uid) b \<in> set tr"
  using assms
  by (auto simp: persist_and_reply_def commit_usage_def create_message_def Let_def
      split: if_splits prod.splits sum.splits)

lemma handle_message_turn:
  assumes "handle_message cfg ev msg w = (w', tr)" and "msg_text msg = Some body" and "body \<noteq> []"
  shows "(w' = w \<and> gate_active cfg
            \<and> (\<exists>b a. tr = [RedisTtl (key gpt35_limiter (from_user_id msg)) b, a]
                  \<and> ((\<exists>t. a = Answer (wait_notice t)) \<or> a = Uncaught RedisTimeoutError)))
       \<or> (\<exists>hd_evs tr1 limiter. tr = hd_evs @ tr1
            \<and> (hd_evs = [SendChatAction]
                \<or> (\<exists>b. hd_evs = [RedisTtl (key gpt35_limiter (from_user_id msg)) b, SendChatAction]))
            \<and> process_turn cfg ev msg body limiter w = (w', tr1))"
  using handle_message_shape [OF assms] by (elim disjE conjE exE) blast+

text \<open>
  C1.  In the trace of \<open>handle_message\<close>, a commit of the rate limiter (a SETEX event) occurs
  only with the gate active, and then the trace ends with: a completion call that went
  through, the insert of the exchange that went through, the commit, the answer; the
  database has the new exchange of the user, with a response.  When the completion call
  fails on both models, the world is left as it was: no insert and no commit is even
  attempted, and, once a completion call has been made, the last thing the handler does is
  to send the user the error notice.
\<close>

theorem commit_only_after_success:
  assumes "handle_message cfg ev msg w = (w', tr)"
  shows "(\<forall>k b. RedisSetex k b \<in> set tr \<longrightarrow>
            gate_active cfg
          \<and> (\<exists>pre m a row.
                tr = pre @ [ApiCall m True, DbInsert (from_user_id msg) True, RedisSetex k b, Answer a]
              \<and> rows (w_db w') = rows (w_db w) @ [row]
              \<and> user_id row = from_user_id msg
              \<and> (\<exists>response. response_text row = Some response)))
       \<and> ((\<forall>msgs. \<not> usable (completion_api ev (model (init_service (openai_model cfg))) msgs)
                 \<and> \<not> usable (completion_api ev (fallback_model (init_service (openai_model cfg))) msgs))
            \<longrightarrow>
              w' = w
            \<and> (\<forall>u b. DbInsert u b \<notin> set tr)
            \<and> (\<forall>k b. RedisSetex k b \<notin> set tr)
            \<and> ((\<exists>m b. ApiCall m b \<in> set tr) \<longrightarrow>
                  (\<exists>x. last tr = Answer (ErrorNotice (CompletionError x)))))"
proof (cases "msg_text msg = None \<or> msg_text msg = Some []")
  case True
  then have "w' = w \<and> tr = [Answer TextRequired]"
    using assms handle_message_no_text [of msg cfg ev w] by simp
  then show ?thesis
    by simp
next
  case False
  then obtain body where tx: "msg_text msg = Some body" "body \<noteq> []"
    by (cases "msg_text msg") auto
  let ?uid = "from_user_id msg"
  let ?k = "key gpt35_limiter ?uid"
  have setex: "\<forall>k b. RedisSetex k b \<in> set tr \<longrightarrow>
            gate_active cfg
          \<and> (\<exists>pre m a row.
                tr = pre @ [ApiCall m True, DbInsert ?uid True, RedisSetex k b, Answer a]
              \<and> rows (w_db w') = rows (w_db w) @ [row]
              \<and> user_id row = ?uid
              \<and> (\<exists>response. response_text row = Some response))"
  proof (intro allI impI)
    fix k b
    assume in_tr: "RedisSetex k b \<in> set tr"
    have "\<not> (\<exists>b a. tr = [RedisTtl ?k b, a]
              \<and> ((\<exists>t. a = Answer (wait_notice t)) \<or> a = Uncaught RedisTimeoutError))"
      using in_tr by (auto simp: wait_notice_def)
    with handle_message_turn [OF assms tx]
    obtain hd_evs tr1 limiter where
      tr: "tr = hd_evs @ tr1" and
      hd: "hd_evs = [SendChatAction] \<or> (\<exists>b. hd_evs = [RedisTtl ?k b, SendChatAction])" and
      pt: "process_turn cfg ev msg body limiter w = (w', tr1)"
      by blast
    have in1: "RedisSetex k b \<in> set tr1"
      using in_tr tr hd by auto
    from process_turn_shape [OF pt] in1
    obtain failed m response tr2 where
      tr1: "tr1 = [DbSelect ?uid (max_context_messages cfg) True]
                  @ map (\<lambda>m. ApiCall m False) failed @ [ApiCall m True] @ tr2" and
      pr: "persist_and_reply cfg ev ?uid body limiter response w = (w', tr2)" and
      in2: "RedisSetex k b \<in> set tr2"
      by auto
    from persist_and_reply_shape [OF pr] in2
    obtain row a where
      row: "rows (w_db w') = rows (w_db w) @ [row]" "user_id row = ?uid"
        "response_text row = Some response" and
      g: "gate_active cfg" and
      tr2: "tr2 = [DbInsert ?uid True, RedisSetex k b, Answer a]"
      by auto
    have "tr = (hd_evs @ [DbSelect ?uid (max_context_messages cfg) True]
                 @ map (\<lambda>m. ApiCall m False) failed)
               @ [ApiCall m True, DbInsert ?uid True, RedisSetex k b, Answer a]"
      using tr tr1 tr2 by simp
    then show "gate_active cfg
          \<and> (\<exists>pre m a row.
                tr = pre @ [ApiCall m True, DbInsert ?uid True, RedisSetex k b, Answer a]
              \<and> rows (w_db w') = rows (w_db w) @ [row]
              \<and> user_id row = ?uid
              \<and> (\<exists>response. response_text row = Some response))"
      using g row by blast
  qed
  have fail: "(\<forall>msgs. \<not> usable (completion_api ev (model (init_service (openai_model cfg))) msgs)
                 \<and> \<not> usable (completion_api ev (fallback_model (init_service (openai_model cfg))) msgs))
            \<longrightarrow>
              w' = w
            \<and> (\<forall>u b. DbInsert u b \<notin> set tr)
            \<and> (\<forall>k b. RedisSetex k b \<notin> set tr)
            \<and> ((\<exists>m b. ApiCall m b \<in> set tr) \<longrightarrow>
                  (\<exists>x. last tr = Answer (ErrorNotice (CompletionError x))))"
  proof
    assume f: "\<forall>msgs. \<not> usable (completion_api ev (model (init_service (openai_model cfg))) msgs)
                 \<and> \<not> usable (completion_api ev (fallback_model (init_service (openai_model cfg))) msgs)"
    note pf = process_turn_all_fail [OF f]
    from handle_message_turn [OF assms tx]
    consider (blocked) b a where "w' = w"
        "tr = [RedisTtl ?k b, a]"
        "(\<exists>t. a = Answer (wait_notice t)) \<or> a = Uncaught RedisTimeoutError"
      | (turn) hd_evs tr1 limiter where "tr = hd_evs @ tr1"
        "hd_evs = [SendChatAction] \<or> (\<exists>b. hd_evs = [RedisTtl ?k b, SendChatAction])"
        "process_turn cfg ev msg body limiter w = (w', tr1)"
      by blast
    then show "w' = w
            \<and> (\<forall>u b. DbInsert u b \<notin> set tr)
            \<and> (\<forall>k b. RedisSetex k b \<notin> set tr)
            \<and> ((\<exists>m b. ApiCall m b \<in> set tr) \<longrightarrow>
                  (\<exists>x. last tr = Answer (ErrorNotice (CompletionError x))))"
    proof cases
      case blocked
      then show ?thesis
        by (auto simp: wait_notice_def)
    next
      case turn
      from pf [OF turn(3)] turn(1,2) show ?thesis
        by auto
    qed
  qed
  from setex fail show ?thesis
    by blast
qed

text \<open>What a turn can put into the trace.\<close>

lemma process_turn_events:
  assumes "process_turn cfg ev msg body limiter w = (w', tr)" and "e \<in> set tr"
  shows "(\<exists>u n b. e = DbSelect u n b) \<or> (\<exists>m b. e = ApiCall m b) \<or> (\<exists>u b. e = DbInsert u b)
       \<or> (\<exists>r. e = Answer (Response r)) \<or> e = Answer (ErrorNotice DbError)
       \<or> (\<exists>x. e = Answer (ErrorNotice (CompletionError x)))
       \<or> (limiter \<noteq> None \<and> gate_active cfg
           \<and> ((\<exists>k b. e = RedisSetex k b) \<or> e = Answer (ErrorNotice RedisResponseError)
               \<or> e = Answer (ErrorNotice RedisTimeoutError)))"
proof -
  from process_turn_shape [OF assms(1)]
  consider (a) "tr = [DbSelect (from_user_id msg) (max_context_messages cfg) False,
                      Answer (ErrorNotice DbError)]"
    | (b) x calls where "tr = [DbSelect (from_user_id msg) (max_context_messages cfg) True]
                 @ map (\<lambda>m. ApiCall m False) calls @ [Answer (ErrorNotice (CompletionError x))]"
    | (c) failed m response tr2 where
        "tr = [DbSelect (from_user_id msg) (max_context_messages cfg) True]
              @ map (\<lambda>m. ApiCall m False) failed @ [ApiCall m True] @ tr2"
        "persist_and_reply cfg ev (from_user_id msg) body limiter response w = (w', tr2)"
    by blast
  then show ?thesis
  proof cases
    case a
    then show ?thesis using assms(2) by auto
  next
    case b
    then show ?thesis using assms(2) by auto
  next
    case c
    from persist_and_reply_shape [OF c(2)]
    have "e \<in> set tr2 \<Longrightarrow> ?thesis"
      by (elim disjE conjE exE) auto
    then show ?thesis
      using c(1) assms(2) by auto
  qed
qed

lemma process_turn_no_limiter:
  assumes "process_turn cfg ev msg body None w = (w', tr)"
  shows "w_redis w' = w_redis w"
proof -
  from process_turn_shape [OF assms]
  consider (same) "w' = w"
    | (c) response tr2 where
        "persist_and_reply cfg ev (from_user_id msg) body None response w = (w', tr2)"
    by blast
  then show ?thesis
  proof cases
    case same
    then show ?thesis by simp
  next
    case c
    from persist_and_reply_shape [OF c] show ?thesis
      by auto
  qed
qed

text \<open>Two turns of user 7 under the free-tier configuration, evaluated.\<close>

lemma key_user_7: "key gpt35_limiter 7 = ''rate_limit:gpt35:user:7''"
  by code_simp

lemma ttl_gpt35: "ttl_seconds gpt35_limiter = 180"
  by (simp add: gpt35_limiter_def)

lemma persist_and_reply_setex_store:
  assumes "persist_and_reply cfg ev uid body (Some lim) response w = (w', tr)"
    and "RedisSetex k True \<in> set tr"
  shows "entries (w_redis w') (key lim uid)
           = Some (''1'', Some (now (w_redis w) + nat (ttl_seconds lim)))"
  using assms
  by (auto simp: persist_and_reply_def commit_usage_def create_message_def touch_def
      redis_setex_def Let_def split: if_splits prod.splits sum.splits)

lemma process_turn_setex_store:
  assumes "process_turn cfg ev msg body (Some lim) w = (w', tr)"
    and "RedisSetex k True \<in> set tr"
  shows "entries (w_redis w') (key lim (from_user_id msg))
           = Some (''1'', Some (now (w_redis w) + nat (ttl_seconds lim)))"
proof -
  from process_turn_shape [OF assms(1)] assms(2)
  obtain failed m response tr2 where
    tr: "tr = [DbSelect (from_user_id msg) (max_context_messages cfg) True]
              @ map (\<lambda>m. ApiCall m False) failed @ [ApiCall m True] @ tr2" and
    p: "persist_and_reply cfg ev (from_user_id msg) body (Some lim) response w = (w', tr2)"
    by auto
  have "RedisSetex k True \<in> set tr2"
    using assms(2) tr by auto
  with p show ?thesis
    by (rule persist_and_reply_setex_store)
qed

text \<open>
  C7.  The gate is active exactly when the free-tier flag is set and the configured model
  is \<open>gpt-3.5-turbo\<close>.  For a message with text: the check (a TTL event) is made exactly
  when the gate is active, and then it is the first thing the handler does.  With the gate
  active and the store reachable, a user whose marker has \<open>t\<close> seconds left is refused:
  the handler sends the rate-limit notice with \<open>t\<close> as minutes and seconds and does nothing
  else, and the world stays as it was; a user without a live marker goes through the turn
  with the limiter.  With the gate active and the check answered, a response to the user
  comes with a commit, and a commit that went through leaves the user's marker in the
  store with the full 180 seconds.  With the gate not active there is no TTL and no SETEX
  event, the store is untouched, no rate-limit notice is sent, and the message goes
  through the turn without a limiter.
\<close>

theorem gate_applies_iff_free_tier:
  assumes "handle_message cfg ev msg w = (w', tr)" and "msg_text msg = Some body" and "body \<noteq> []"
  shows "(gate_active cfg \<longleftrightarrow> free_version_gpt cfg \<and> openai_model cfg = ''gpt-3.5-turbo'')
       \<and> ((\<exists>k b. RedisTtl k b \<in> set tr) \<longleftrightarrow> gate_active cfg)
       \<and> (gate_active cfg \<longrightarrow>
            (\<exists>b rest. tr = RedisTtl (key gpt35_limiter (from_user_id msg)) b # rest))
       \<and> (gate_active cfg \<and> reachable (w_redis w) \<longrightarrow>
            (\<forall>v e t. entries (w_redis w) (key gpt35_limiter (from_user_id msg)) = Some (v, Some e)
                   \<and> now (w_redis w) < e \<and> t = int e - int (now (w_redis w)) \<longrightarrow>
               w' = w
             \<and> tr = [RedisTtl (key gpt35_limiter (from_user_id msg)) True,
                     Answer (RateLimited (if t div 60 \<noteq> 0 then Some (t div 60) else None)
                               (t mod 60))]))
       \<and> (gate_active cfg \<and> reachable (w_redis w)
            \<and> (\<nexists>v e. entries (w_redis w) (key gpt35_limiter (from_user_id msg)) = Some (v, Some e)
                      \<and> now (w_redis w) < e) \<longrightarrow>
            (\<exists>tr1. tr = RedisTtl (key gpt35_limiter (from_user_id msg)) True # SendChatAction # tr1
                 \<and> process_turn cfg ev msg body (Some gpt35_limiter) w = (w', tr1)))
       \<and> (gate_active cfg \<and> (\<exists>k. RedisTtl k True \<in> set tr) \<and> (\<exists>r. Answer (Response r) \<in> set tr)
            \<longrightarrow> (\<exists>b. RedisSetex (key gpt35_limiter (from_user_id msg)) b \<in> set tr))
       \<and> ((\<exists>k. RedisSetex k True \<in> set tr) \<longrightarrow>
            entries (w_redis w') (key gpt35_limiter (from_user_id msg))
              = Some (''1'', Some (now (w_redis w) + 180)))
       \<and> (\<not> gate_active cfg \<longrightarrow>
              (\<forall>k b. RedisTtl k b \<notin> set tr \<and> RedisSetex k b \<notin> set tr)
            \<and> w_redis w' = w_redis w
            \<and> (\<forall>mi s. Answer (RateLimited mi s) \<notin> set tr)
            \<and> (\<exists>tr1. tr = SendChatAction # tr1
                  \<and> process_turn cfg ev msg body None w = (w', tr1)))"
proof -
  let ?k = "key gpt35_limiter (from_user_id msg)"
  let ?r = "w_redis w"
  let ?live = "\<exists>v e. entries ?r ?k = Some (v, Some e) \<and> now ?r < e"
  let ?C2 = "(\<exists>k b. RedisTtl k b \<in> set tr) \<longleftrightarrow> gate_active cfg"
  let ?C3 = "gate_active cfg \<longrightarrow> (\<exists>b rest. tr = RedisTtl ?k b # rest)"
  let ?C4 = "gate_active cfg \<and> reachable ?r \<longrightarrow>
            (\<forall>v e t. entries ?r ?k = Some (v, Some e)
                   \<and> now ?r < e \<and> t = int e - int (now ?r) \<longrightarrow>
               w' = w
             \<and> tr = [RedisTtl ?k True,
                     Answer (RateLimited (if t div 60 \<noteq> 0 then Some (t div 60) else None)
                               (t mod 60))])"
  let ?C5 = "gate_active cfg \<and> reachable ?r \<and> \<not> ?live \<longrightarrow>
            (\<exists>tr1. tr = RedisTtl ?k True # SendChatAction # tr1
                 \<and> process_turn cfg ev msg body (Some gpt35_limiter) w = (w', tr1))"
  let ?C6 = "gate_active cfg \<and> (\<exists>k. RedisTtl k True \<in> set tr) \<and> (\<exists>r. Answer (Response r) \<in> set tr)
            \<longrightarrow> (\<exists>b. RedisSetex ?k b \<in> set tr)"
  let ?C7 = "(\<exists>k. RedisSetex k True \<in> set tr) \<longrightarrow>
            entries (w_redis w') ?k = Some (''1'', Some (now ?r + 180))"
  let ?C8 = "\<not> gate_active cfg \<longrightarrow>
              (\<forall>k b. RedisTtl k b \<notin> set tr \<and> RedisSetex k b \<notin> set tr)
            \<and> w_redis w' = w_redis w
            \<and> (\<forall>mi s. Answer (RateLimited mi s) \<notin> set tr)
            \<and> (\<exists>tr1. tr = SendChatAction # tr1
                  \<and> process_turn cfg ev msg body None w = (w', tr1))"
  have c1: "gate_active cfg \<longleftrightarrow> free_version_gpt cfg \<and> openai_model cfg = ''gpt-3.5-turbo''"
    by (simp add: gate_active_def)
  have live: "reachable ?r \<Longrightarrow> entries ?r ?k = Some (v, Some e) \<Longrightarrow> now ?r < e \<Longrightarrow>
      fst (get_limit_state gpt35_limiter ?r (from_user_id msg)) = Inr (True, int e - int (now ?r))"
    for v e
    by (simp add: get_limit_state_reachable)
  have dead: "reachable ?r \<Longrightarrow> \<not> ?live \<Longrightarrow>
      fst (get_limit_state gpt35_limiter ?r (from_user_id msg)) = Inr (False, 0)"
    by (auto simp: get_limit_state_reachable split: option.splits)
  from handle_message_shape [OF assms]
  consider (off) tr1 where "\<not> gate_active cfg" "tr = [SendChatAction] @ tr1"
      "process_turn cfg ev msg body None w = (w', tr1)"
    | (down) tr1 where "gate_active cfg" "\<not> reachable ?r"
      "tr = [RedisTtl ?k False, SendChatAction] @ tr1"
      "process_turn cfg ev msg body None w = (w', tr1)"
    | (blocked) t where "gate_active cfg" "reachable ?r" "w' = w"
      "fst (get_limit_state gpt35_limiter ?r (from_user_id msg)) = Inr (True, t)"
      "tr = [RedisTtl ?k True, Answer (wait_notice t)]"
    | (go) t tr1 where "gate_active cfg" "reachable ?r"
      "fst (get_limit_state gpt35_limiter ?r (from_user_id msg)) = Inr (False, t)"
      "tr = [RedisTtl ?k True, SendChatAction] @ tr1"
      "process_turn cfg ev msg body (Some gpt35_limiter) w = (w', tr1)"
    | (silent) "gate_active cfg" "\<not> reachable ?r"
      "tr = [RedisTtl ?k False, Uncaught RedisTimeoutError]"
    by blast
  then have "?C2 \<and> ?C3 \<and> ?C4 \<and> ?C5 \<and> ?C6 \<and> ?C7 \<and> ?C8"
  proof cases
    case off
    have "\<forall>e\<in>set tr1. (\<forall>k b. e \<noteq> RedisTtl k b \<and> e \<noteq> RedisSetex k b)
             \<and> (\<forall>mi s. e \<noteq> Answer (RateLimited mi s))"
      using process_turn_events [OF off(3)] by fastforce
    then have no: "(\<forall>k b. RedisTtl k b \<notin> set tr \<and> RedisSetex k b \<notin> set tr)
             \<and> (\<forall>mi s. Answer (RateLimited mi s) \<notin> set tr)"
      using off(2) by auto
    have "?C2"
      using no off(1) by blast
    moreover have "?C3" "?C4" "?C5" "?C6"
      using off(1) by blast+
    moreover have "?C7"
      using no by blast
    moreover have "\<exists>tr1. tr = SendChatAction # tr1
                  \<and> process_turn cfg ev msg body None w = (w', tr1)"
      using off(2,3) by simp
    then have "?C8"
      using no process_turn_no_limiter [OF off(3)] by blast
    ultimately show ?thesis
      by blast
  next
    case down
    have "\<forall>e\<in>set tr1. \<forall>k b. e \<noteq> RedisTtl k b \<and> e \<noteq> RedisSetex k b"
      using process_turn_events [OF down(4)] by fastforce
    then have no: "\<forall>k. RedisTtl k True \<notin> set tr" "\<forall>k b. RedisSetex k b \<notin> set tr"
      using down(3) by auto
    have "?C6" "?C7"
      using no by blast+
    moreover have "RedisTtl ?k False \<in> set tr"
      using down(3) by simp
    then have "?C2"
      using down(1) by blast
    moreover have "tr = RedisTtl ?k False # SendChatAction # tr1"
      using down(3) by simp
    then have "?C3"
      by blast
    moreover have "?C4" "?C5"
      using down(2) by blast+
    moreover have "?C8"
      using down(1) by blast
    ultimately show ?thesis
      by blast
  next
    case blocked
    have tr2: "tr = [RedisTtl ?k True, Answer (RateLimited (if t div 60 \<noteq> 0 then Some (t div 60)
                                                          else None) (t mod 60))]"
      using blocked(5) by (simp add: wait_notice_def Let_def)
    have "\<forall>r. Answer (Response r) \<notin> set tr" and nos: "\<forall>k b. RedisSetex k b \<notin> set tr"
      using tr2 by simp_all
    then have "?C6" "?C7"
      by blast+
    moreover have "RedisTtl ?k True \<in> set tr"
      using tr2 by simp
    then have "?C2"
      using blocked(1) by blast
    moreover have "?C3"
      using tr2 by blast
    moreover have "?C4"
    proof (intro impI allI)
      fix v e t'
      assume "gate_active cfg \<and> reachable ?r"
        and m: "entries ?r ?k = Some (v, Some e) \<and> now ?r < e \<and> t' = int e - int (now ?r)"
      then have "fst (get_limit_state gpt35_limiter ?r (from_user_id msg)) = Inr (True, t')"
        using live [of v e] by simp
      then have "t' = t"
        using blocked(4) by simp
      then show "w' = w
             \<and> tr = [RedisTtl ?k True,
                     Answer (RateLimited (if t' div 60 \<noteq> 0 then Some (t' div 60) else None)
                               (t' mod 60))]"
        using blocked(3) tr2 by simp
    qed
    moreover have "?C5"
      using dead blocked(4) by auto
    moreover have "?C8"
      using blocked(1) by blast
    ultimately show ?thesis
      by blast
  next
    case go
    have "(\<exists>r. Answer (Response r) \<in> set tr) \<longrightarrow> (\<exists>b. RedisSetex ?k b \<in> set tr)"
    proof
      assume "\<exists>r. Answer (Response r) \<in> set tr"
      then obtain r where r: "Answer (Response r) \<in> set tr1"
        using go(4) by auto
      from process_turn_shape [OF go(5)] r
      obtain failed m response tr2 where
        tr1: "tr1 = [DbSelect (from_user_id msg) (max_context_messages cfg) True]
              @ map (\<lambda>m. ApiCall m False) failed @ [ApiCall m True] @ tr2" and
        p: "persist_and_reply cfg ev (from_user_id msg) body (Some gpt35_limiter) response w
            = (w', tr2)"
        by auto
      have "Answer (Response r) \<in> set tr2"
        using r tr1 by auto
      from persist_and_reply_commits [OF p go(1) this]
      show "\<exists>b. RedisSetex ?k b \<in> set tr"
        using go(4) tr1 by auto
    qed
    then have "?C6"
      by blast
    moreover have "?C7"
    proof
      assume "\<exists>k. RedisSetex k True \<in> set tr"
      then obtain k where "RedisSetex k True \<in> set tr1"
        using go(4) by auto
      from process_turn_setex_store [OF go(5) this]
      show "entries (w_redis w') ?k = Some (''1'', Some (now ?r + 180))"
        by (simp add: ttl_gpt35)
    qed
    moreover have "RedisTtl ?k True \<in> set tr"
      using go(4) by simp
    then have "?C2"
      using go(1) by blast
    moreover have tr2: "tr = RedisTtl ?k True # SendChatAction # tr1"
      using go(4) by simp
    then have "?C3"
      by blast
    moreover have "?C4"
    proof (intro impI allI)
      fix v e t'
      assume "gate_active cfg \<and> reachable ?r"
        and m: "entries ?r ?k = Some (v, Some e) \<and> now ?r < e \<and> t' = int e - int (now ?r)"
      then have "fst (get_limit_state gpt35_limiter ?r (from_user_id msg)) = Inr (True, t')"
        using live [of v e] by simp
      then have False
        using go(3) by simp
      then show "w' = w
             \<and> tr = [RedisTtl ?k True,
                     Answer (RateLimited (if t' div 60 \<noteq> 0 then Some (t' div 60) else None)
                               (t' mod 60))]"
        by simp
    qed
    moreover have "?C5"
      using tr2 go(5) by blast
    moreover have "?C8"
      using go(1) by blast
    ultimately show ?thesis
      by blast
  next
    case silent
    have no: "\<forall>k. RedisTtl k True \<notin> set tr" "\<forall>k b. RedisSetex k b \<notin> set tr"
      using silent(3) by simp_all
    have "?C6" "?C7"
      using no by blast+
    moreover have "RedisTtl ?k False \<in> set tr"
      using silent(3) by simp
    then have "?C2"
      using silent(1) by blast
    moreover have "?C3"
      using silent(3) by blast
    moreover have "?C4" "?C5"
      using silent(2) by blast+
    moreover have "?C8"
      using silent(1) by blast
    ultimately show ?thesis
      by blast
  qed
  with c1 show ?thesis
    by blast
qed

text \<open>How the handler fails open when the connection to the store is refused.\<close>

lemma refused_connection_fails_open:
  assumes "msg_text msg = Some body" and "body \<noteq> []" and "gate_active cfg"
    and "\<not> reachable (w_redis w)" and "\<not> timing_out (w_redis w)"
  shows "handle_message cfg ev msg w
           = (fst (handle_message (cfg\<lparr>free_version_gpt := False\<rparr>) ev msg w),
              RedisTtl (key gpt35_limiter (from_user_id msg)) False
                # snd (handle_message (cfg\<lparr>free_version_gpt := False\<rparr>) ev msg w))
       \<and> (\<forall>k b. RedisSetex k b \<notin> set (snd (handle_message cfg ev msg w)))
       \<and> (\<forall>mi s. Answer (RateLimited mi s) \<notin> set (snd (handle_message cfg ev msg w)))
       \<and> (\<forall>e. Uncaught e \<notin> set (snd (handle_message cfg ev msg w)))
       \<and> (\<forall>e. Answer (ErrorNotice e) \<in> set (snd (handle_message cfg ev msg w)) \<longrightarrow>
              e = DbError \<or> (\<exists>x. e = CompletionError x))
       \<and> w_redis (fst (handle_message cfg ev msg w)) = w_redis w"
proof -
  let ?k = "key gpt35_limiter (from_user_id msg)"
  let ?off = "cfg\<lparr>free_version_gpt := False\<rparr>"
  obtain w' tr where h: "handle_message cfg ev msg w = (w', tr)"
    by (cases "handle_message cfg ev msg w") auto
  obtain w2 tr2 where h2: "handle_message ?off ev msg w = (w2, tr2)"
    by (cases "handle_message ?off ev msg w") auto
  from handle_message_shape [OF h assms(1,2)] assms(3,4,5)
  obtain tr1 where tr: "tr = [RedisTtl ?k False, SendChatAction] @ tr1"
    and p: "process_turn cfg ev msg body None w = (w', tr1)"
    by blast
  have "\<not> gate_active ?off"
    by (simp add: gate_active_def)
  with handle_message_shape [OF h2 assms(1,2)]
  obtain tr3 where tr2: "tr2 = [SendChatAction] @ tr3"
    and p2: "process_turn ?off ev msg body None w = (w2, tr3)"
    by blast
  have same: "w2 = w' \<and> tr3 = tr1"
    using p p2 by (simp add: process_turn_flag)
  have tr': "tr = RedisTtl ?k False # SendChatAction # tr1"
    using tr by simp
  have cls: "\<forall>e\<in>set tr1.
      (\<exists>u n b. e = DbSelect u n b) \<or> (\<exists>m b. e = ApiCall m b) \<or> (\<exists>u b. e = DbInsert u b)
       \<or> (\<exists>r. e = Answer (Response r)) \<or> e = Answer (ErrorNotice DbError)
       \<or> (\<exists>x. e = Answer (ErrorNotice (CompletionError x)))"
  proof
    fix e
    assume "e \<in> set tr1"
    from process_turn_events [OF p this] show
      "(\<exists>u n b. e = DbSelect u n b) \<or> (\<exists>m b. e = ApiCall m b) \<or> (\<exists>u b. e = DbInsert u b)
       \<or> (\<exists>r. e = Answer (Response r)) \<or> e = Answer (ErrorNotice DbError)
       \<or> (\<exists>x. e = Answer (ErrorNotice (CompletionError x)))"
      by simp
  qed
  have e1: "\<forall>k b. RedisSetex k b \<notin> set tr1"
    using cls by fastforce
  have e2: "\<forall>mi s. Answer (RateLimited mi s) \<notin> set tr1"
    using cls by fastforce
  have e3: "\<forall>e. Uncaught e \<notin> set tr1"
    using cls by fastforce
  have e4: "\<forall>e. Answer (ErrorNotice e) \<in> set tr1 \<longrightarrow> e = DbError \<or> (\<exists>x. e = CompletionError x)"
    using cls by fastforce
  have h2': "handle_message ?off ev msg w = (w', SendChatAction # tr1)"
    using h2 tr2 same by simp
  have a1: "handle_message cfg ev msg w
           = (fst (handle_message ?off ev msg w), RedisTtl ?k False # snd (handle_message ?off ev msg w))"
    using h tr' h2' by simp
  have a2: "\<forall>k b. RedisSetex k b \<notin> set (snd (handle_message cfg ev msg w))"
    using h tr' e1 by simp
  have a3: "\<forall>mi s. Answer (RateLimited mi s) \<notin> set (snd (handle_message cfg ev msg w))"
    using h tr' e2 by simp
  have a4: "\<forall>e. Uncaught e \<notin> set (snd (handle_message cfg ev msg w))"
    using h tr' e3 by simp
  have a5: "\<forall>e. Answer (ErrorNotice e) \<in> set (snd (handle_message cfg ev msg w)) \<longrightarrow>
              e = DbError \<or> (\<exists>x. e = CompletionError x)"
    using h tr' e4 by simp
  have a6: "w_redis (fst (handle_message cfg ev msg w)) = w_redis w"
    using h process_turn_no_limiter [OF p] by simp
  from a1 a2 a3 a4 a5 a6 show ?thesis
    by blast
qed

text \<open>
  C4.  The claim has the check never fatal when the store cannot be reached.  Here the
  gate is active and the store does not answer, so that the client times out: the
  exception is not the one the handler catches, it leaves the handler, the user gets no
  answer, and the turn is not processed.
\<close>

theorem store_timeout_is_fatal:
  "handle_message free_tier_config answering_env hello
     \<lparr>w_redis = silent_store, w_db = example_db\<rparr>
   = (\<lparr>w_redis = silent_store, w_db = example_db\<rparr>,
      [RedisTtl ''rate_limit:gpt35:user:7'' False, Uncaught RedisTimeoutError])"
  by (simp add: handle_message_def free_tier_config_def hello_def silent_store_def
      gate_active_def key_user_7 get_limit_state_unreachable link_error_def)

lemma failing_turn_trace:
  "snd (handle_message free_tier_config failing_env hello example_world) =
      [RedisTtl ''rate_limit:gpt35:user:7'' True, SendChatAction, DbSelect 7 5 True,
       ApiCall ''gpt-3.5-turbo'' False, ApiCall ''gpt-4o-mini'' False,
       Answer (ErrorNotice (CompletionError (Some (ApiError ''timeout''))))]"
  by (simp add: handle_message_def process_turn_def free_tier_config_def failing_env_def hello_def
      example_world_def example_store_def example_db_def gate_active_def key_user_7
      get_limit_state_reachable get_recent_messages_def generate_response_def set_iter_def
      init_service_def api_events_def)

lemma answering_turn_trace:
  "snd (handle_message free_tier_config answering_env hello example_world) =
      [RedisTtl ''rate_limit:gpt35:user:7'' True, SendChatAction, DbSelect 7 5 True,
       ApiCall ''gpt-3.5-turbo'' True, DbInsert 7 True,
       RedisSetex ''rate_limit:gpt35:user:7'' True, Answer (Response [111, 107])]"
  by (simp add: handle_message_def process_turn_def free_tier_config_def answering_env_def hello_def
      example_world_def example_store_def example_db_def gate_active_def key_user_7
      get_limit_state_reachable get_recent_messages_def generate_response_def set_iter_def
      init_service_def api_events_def persist_and_reply_def commit_usage_def create_message_def
      touch_def redis_setex_def strip_def py_isspace_def ttl_gpt35 Let_def)

theorem commit_only_after_success_witness:
  "(\<exists>x. last (snd (handle_message free_tier_config failing_env hello example_world))
          = Answer (ErrorNotice (CompletionError x)))
   \<and> fst (handle_message free_tier_config failing_env hello example_world) = example_world
   \<and> (\<forall>k b. RedisSetex k b
          \<notin> set (snd (handle_message free_tier_config failing_env hello example_world)))
   \<and> (\<exists>pre m a.
         snd (handle_message free_tier_config answering_env hello example_world)
         = pre @ [ApiCall m True, DbInsert (from_user_id hello) True,
                  RedisSetex ''rate_limit:gpt35:user:7'' True, Answer a])"
proof -
  let ?f = "handle_message free_tier_config failing_env hello example_world"
  let ?a = "handle_message free_tier_config answering_env hello example_world"
  note tf = failing_turn_trace
  note ta = answering_turn_trace
  have hf: "?f = (fst ?f, snd ?f)" and ha: "?a = (fst ?a, snd ?a)"
    by simp_all
  have fails: "\<forall>msgs.
      \<not> usable (completion_api failing_env (model (init_service (openai_model free_tier_config))) msgs)
    \<and> \<not> usable (completion_api failing_env
           (fallback_model (init_service (openai_model free_tier_config))) msgs)"
    by (simp add: failing_env_def)
  have "ApiCall ''gpt-4o-mini'' False \<in> set (snd ?f)"
    unfolding tf by simp
  then have call: "\<exists>m b. ApiCall m b \<in> set (snd ?f)"
    by blast
  have setex: "RedisSetex ''rate_limit:gpt35:user:7'' True \<in> set (snd ?a)"
    unfolding ta by simp
  from commit_only_after_success [OF hf] fails call
  have f: "fst ?f = example_world" "\<forall>k b. RedisSetex k b \<notin> set (snd ?f)"
    "\<exists>x. last (snd ?f) = Answer (ErrorNotice (CompletionError x))"
    by blast+
  from commit_only_after_success [OF ha] setex
  have "\<exists>pre m a. snd ?a = pre @ [ApiCall m True, DbInsert (from_user_id hello) True,
                  RedisSetex ''rate_limit:gpt35:user:7'' True, Answer a]"
    by blast
  with f show ?thesis
    by blast
qed

lemma answering_turn_store:
  "w_redis (fst (handle_message free_tier_config answering_env hello example_world))
   = \<lparr>reachable = True, timing_out = False, now = 0,
      entries = [''rate_limit:gpt35:user:7'' \<mapsto> (''1'', Some 180)]\<rparr>"
  by (simp add: handle_message_def process_turn_def free_tier_config_def answering_env_def hello_def
      example_world_def example_store_def example_db_def gate_active_def key_user_7
      get_limit_state_reachable get_recent_messages_def generate_response_def set_iter_def
      init_service_def api_events_def persist_and_reply_def commit_usage_def create_message_def
      touch_def redis_setex_def strip_def py_isspace_def ttl_gpt35 Let_def)

text \<open>
  The witness: user 7 is served and committed on an empty store; a minute later the
  same user is refused with two minutes to wait; with the flag off nothing is checked.
\<close>

theorem gate_applies_iff_free_tier_witness:
  "gate_active free_tier_config
   \<and> (\<exists>b. RedisSetex (key gpt35_limiter (from_user_id hello)) b
          \<in> set (snd (handle_message free_tier_config answering_env hello example_world)))
   \<and> snd (handle_message free_tier_config answering_env hello
        ((fst (handle_message free_tier_config answering_env hello example_world))
           \<lparr>w_redis := advance 60
              (w_redis (fst (handle_message free_tier_config answering_env hello example_world)))\<rparr>))
       = [RedisTtl (key gpt35_limiter (from_user_id hello)) True, Answer (RateLimited (Some 2) 0)]
   \<and> \<not> gate_active (free_tier_config\<lparr>free_version_gpt := False\<rparr>)
   \<and> (\<forall>k b. RedisTtl k b
          \<notin> set (snd (handle_message (free_tier_config\<lparr>free_version_gpt := False\<rparr>)
                    answering_env hello example_world)))"
proof -
  let ?off = "free_tier_config\<lparr>free_version_gpt := False\<rparr>"
  let ?a = "handle_message free_tier_config answering_env hello example_world"
  let ?b = "handle_message ?off answering_env hello example_world"
  let ?w1 = "(fst ?a)\<lparr>w_redis := advance 60 (w_redis (fst ?a))\<rparr>"
  let ?c = "handle_message free_tier_config answering_env hello ?w1"
  let ?k = "key gpt35_limiter (from_user_id hello)"
  note ta = answering_turn_trace
  have ha: "?a = (fst ?a, snd ?a)" and hb: "?b = (fst ?b, snd ?b)" and hc: "?c = (fst ?c, snd ?c)"
    by simp_all
  have t: "msg_text hello = Some [72, 105]" and n: "[72, 105] \<noteq> ([] :: nat list)"
    by (simp_all add: hello_def)
  have on: "gate_active free_tier_config"
    by (simp add: gate_active_def free_tier_config_def)
  have off: "\<not> gate_active ?off"
    by (simp add: gate_active_def)
  have "RedisTtl ''rate_limit:gpt35:user:7'' True \<in> set (snd ?a)"
    "Answer (Response [111, 107]) \<in> set (snd ?a)"
    unfolding ta by simp_all
  then have "\<exists>k. RedisTtl k True \<in> set (snd ?a)" "\<exists>r. Answer (Response r) \<in> set (snd ?a)"
    by blast+
  with gate_applies_iff_free_tier [OF ha t n] on
  have one: "\<exists>b. RedisSetex ?k b \<in> set (snd ?a)"
    by blast
  have k: "?k = ''rate_limit:gpt35:user:7''"
    by (simp add: hello_def key_user_7)
  have st: "w_redis ?w1
      = \<lparr>reachable = True, timing_out = False, now = 60,
         entries = [''rate_limit:gpt35:user:7'' \<mapsto> (''1'', Some 180)]\<rparr>"
    by (simp add: answering_turn_store advance_def)
  have up: "reachable (w_redis ?w1)"
    and m: "entries (w_redis ?w1) ?k = Some (''1'', Some 180) \<and> now (w_redis ?w1) < 180
           \<and> (120::int) = int 180 - int (now (w_redis ?w1))"
    unfolding st k by simp_all
  from gate_applies_iff_free_tier [OF hc t n] on up m
  have "snd ?c = [RedisTtl ?k True,
                  Answer (RateLimited (if (120::int) div 60 \<noteq> 0 then Some (120 div 60) else None)
                            (120 mod 60))]"
    by blast
  then have two: "snd ?c = [RedisTtl ?k True, Answer (RateLimited (Some 2) 0)]"
    by simp
  from gate_applies_iff_free_tier [OF hb t n] off
  have three: "\<forall>k b. RedisTtl k b \<notin> set (snd ?b)"
    by blast
  from on one two off three show ?thesis
    by blast
qed

end
